theory Spec2Isabelle
  imports Complex_Main "HOL-Library.Sublist" "HOL-Library.Char_ord" "HOL-Library.List_Lexorder"
    "HOL-Library.Product_Lexorder" "HOL-Library.Multiset" "HOL-Library.AList"
begin

section \<open>Python values held by the task list\<close>

text \<open>
  \<^verbatim>\<open>app.py\<close> keeps its tasks as the dictionaries that \<^verbatim>\<open>json.load\<close> returns (or that
  \<^verbatim>\<open>create_task\<close> builds), and never checks their shape. The model therefore works on JSON
  values as Python represents them:
  \<^item> a number is its mathematical value (every Python \<^verbatim>\<open>int\<close> and every finite \<^verbatim>\<open>float\<close> is a
    rational; Python compares the two kinds by value). NaN and the infinities are not modelled;
  \<^item> a string is the list of its code points, for code points below 256;
  \<^item> a \<^verbatim>\<open>dict\<close> is an association list in insertion order, read with \<^const>\<open>map_of\<close> and written
    with \<^const>\<open>AList.update\<close> (an existing key keeps its position, a new key goes last).
\<close>

datatype json = JNull | JBool bool | JNum rat | JStr string
  | JArr "json list" | JObj "(string \<times> json) list"

text \<open>
  The exceptions the modelled code can raise. \<open>NotModelled\<close> is not a Python exception: it marks
  the inputs of \<^verbatim>\<open>sorted\<close> whose keys are outside the totally ordered kinds (see \<open>py_sorted\<close>).
\<close>

datatype py_error = KeyError | TypeError | AttributeError | UnicodeDecodeError | OSError
  | NotModelled

definition py_bind :: "py_error + 'a \<Rightarrow> ('a \<Rightarrow> py_error + 'b) \<Rightarrow> py_error + 'b" where
  "py_bind m f = (case m of Inl e \<Rightarrow> Inl e | Inr x \<Rightarrow> f x)"

text \<open>Python's \<^verbatim>\<open>==\<close> on JSON values: \<^verbatim>\<open>True == 1\<close>, dictionaries compare without order.\<close>

fun py_eq :: "json \<Rightarrow> json \<Rightarrow> bool"
  and py_eq_list :: "json list \<Rightarrow> json list \<Rightarrow> bool"
  and py_eq_items :: "(string \<times> json) list \<Rightarrow> (string \<times> json) list \<Rightarrow> bool" where
  "py_eq JNull JNull = True"
| "py_eq (JBool a) (JBool b) = (a = b)"
| "py_eq (JBool a) (JNum n) = (n = of_bool a)"
| "py_eq (JNum n) (JBool a) = (n = of_bool a)"
| "py_eq (JNum m) (JNum n) = (m = n)"
| "py_eq (JStr s) (JStr t) = (s = t)"
| "py_eq (JArr xs) (JArr ys) = py_eq_list xs ys"
| "py_eq (JObj a) (JObj b) = (length a = length b \<and> py_eq_items a b)"
| "py_eq _ _ = False"
| "py_eq_list [] [] = True"
| "py_eq_list (x # xs) (y # ys) = (py_eq x y \<and> py_eq_list xs ys)"
| "py_eq_list _ _ = False"
| "py_eq_items [] b = True"
| "py_eq_items ((k, v) # a) b =
     ((case map_of b k of None \<Rightarrow> False | Some w \<Rightarrow> py_eq v w) \<and> py_eq_items a b)"

text \<open>Truth value testing, as \<^verbatim>\<open>not x\<close> and \<^verbatim>\<open>if x\<close> do it.\<close>

fun truthy :: "json \<Rightarrow> bool" where
  "truthy JNull = False"
| "truthy (JBool b) = b"
| "truthy (JNum n) = (n \<noteq> 0)"
| "truthy (JStr s) = (s \<noteq> [])"
| "truthy (JArr xs) = (xs \<noteq> [])"
| "truthy (JObj d) = (d \<noteq> [])"

text \<open>\<^verbatim>\<open>x[k]\<close> with a string key: only a \<^verbatim>\<open>dict\<close> can answer, and only for a key it has.\<close>

fun getitem :: "json \<Rightarrow> string \<Rightarrow> py_error + json" where
  "getitem (JObj d) k = (case map_of d k of None \<Rightarrow> Inl KeyError | Some v \<Rightarrow> Inr v)"
| "getitem _ k = Inl TypeError"

text \<open>\<^verbatim>\<open>x[k] = v\<close> with a string key.\<close>

fun setitem :: "json \<Rightarrow> string \<Rightarrow> json \<Rightarrow> py_error + json" where
  "setitem (JObj d) k v = Inr (JObj (AList.update k v d))"
| "setitem _ k v = Inl TypeError"

fun str_contains :: "string \<Rightarrow> string \<Rightarrow> bool" where
  "str_contains [] sub = (sub = [])"
| "str_contains (c # cs) sub = (prefix sub (c # cs) \<or> str_contains cs sub)"

text \<open>
  \<^verbatim>\<open>k in x\<close> for a string \<open>k\<close>: key membership in a \<^verbatim>\<open>dict\<close>, substring test in a \<^verbatim>\<open>str\<close>,
  element test in a \<^verbatim>\<open>list\<close>; numbers, booleans and \<^verbatim>\<open>None\<close> are not containers.
\<close>

fun py_in :: "string \<Rightarrow> json \<Rightarrow> py_error + bool" where
  "py_in k (JObj d) = Inr (map_of d k \<noteq> None)"
| "py_in k (JStr s) = Inr (str_contains s k)"
| "py_in k (JArr xs) = Inr (list_ex (\<lambda>x. py_eq x (JStr k)) xs)"
| "py_in k _ = Inl TypeError"

text \<open>What a \<^verbatim>\<open>for\<close> loop or \<^verbatim>\<open>list.extend\<close> sees: a \<^verbatim>\<open>dict\<close> yields its keys, a \<^verbatim>\<open>str\<close> its
  characters.\<close>

fun py_iter :: "json \<Rightarrow> py_error + json list" where
  "py_iter (JArr xs) = Inr xs"
| "py_iter (JObj d) = Inr (map (\<lambda>kv. JStr (fst kv)) d)"
| "py_iter (JStr s) = Inr (map (\<lambda>c. JStr [c]) s)"
| "py_iter _ = Inl TypeError"

subsection \<open>Strings: \<^verbatim>\<open>str.lower\<close> and \<^verbatim>\<open>str.strip\<close>\<close>

text \<open>Below code point 256 the only cased letters with a lowercase partner are A-Z and
  U+00C0-U+00DE without the multiplication sign; the partner is 32 higher.\<close>

fun lower_char :: "char \<Rightarrow> char" where
  "lower_char (Char b0 b1 b2 b3 b4 b5 b6 b7) =
     (let n = (of_char (Char b0 b1 b2 b3 b4 b5 b6 b7) :: nat)
      in if (65 \<le> n \<and> n \<le> 90) \<or> (192 \<le> n \<and> n \<le> 222 \<and> n \<noteq> 215)
         then Char b0 b1 b2 b3 b4 True b6 b7
         else Char b0 b1 b2 b3 b4 b5 b6 b7)"

definition py_lower :: "string \<Rightarrow> string" where
  "py_lower s = map lower_char s"

definition is_space :: "char \<Rightarrow> bool" where
  "is_space c = ((of_char c :: nat) \<in> {9, 10, 11, 12, 13, 28, 29, 30, 31, 32, 133, 160})"

definition py_strip :: "string \<Rightarrow> string" where
  "py_strip s = rev (dropWhile is_space (rev (dropWhile is_space s)))"

section \<open>The clock\<close>

text \<open>
  A \<^verbatim>\<open>datetime\<close> is used only through \<^verbatim>\<open>timestamp()\<close> and \<^verbatim>\<open>isoformat()\<close>. The clock of
  an operation is the sequence of values that its successive calls of \<^verbatim>\<open>datetime.now()\<close>
  return: call number \<open>k\<close> (from 0) of the operation returns \<open>now k\<close>.
\<close>

record datetime =
  timestamp :: rat
  isoformat :: string

type_synonym clock = "nat \<Rightarrow> datetime"

section \<open>Task records\<close>

definition create_task :: "clock \<Rightarrow> string \<Rightarrow> string \<Rightarrow> json" where
  "create_task now text priority = JObj
     [(''id'', JNum (timestamp (now 0))),
      (''task'', JStr text),
      (''done'', JBool False),
      (''priority'', JStr priority),
      (''created_at'', JStr (isoformat (now 1))),
      (''completed_at'', JNull)]"

section \<open>The persisted file\<close>

text \<open>
  \<^verbatim>\<open>tasks.json\<close> is represented by what \<^verbatim>\<open>os.path.exists\<close>, \<^verbatim>\<open>open\<close> and \<^verbatim>\<open>json.load\<close> make
  of it: no file; a file that is gone between the existence test and \<^verbatim>\<open>open\<close>; a path that
  exists but that \<^verbatim>\<open>open\<close> refuses with another \<^verbatim>\<open>OSError\<close> (no permission, a directory);
  bytes that are not UTF-8; text that is not JSON; or the value that \<^verbatim>\<open>json.load\<close> returns.
  \<^verbatim>\<open>json.dump\<close> followed by \<^verbatim>\<open>json.load\<close> gives back the value written, which is the
  contract of the \<^verbatim>\<open>json\<close> module on the values modelled here.
\<close>

datatype json_file = NoFile | Vanished | Unreadable | NotUtf8 | BadJson | Parsed json

text \<open>How the write of one \<^verbatim>\<open>save_tasks\<close> call goes: it succeeds, \<^verbatim>\<open>open\<close> fails (the old file
  stays), or the write fails after \<^verbatim>\<open>open\<close> has truncated the file (a proper prefix of a JSON
  array is not JSON).\<close>

datatype write_outcome = WriteOk | OpenFails | DumpFails

definition save_tasks :: "write_outcome \<Rightarrow> json list \<Rightarrow> json_file \<Rightarrow> json_file" where
  "save_tasks w tasks f =
     (case w of WriteOk \<Rightarrow> Parsed (JArr tasks) | OpenFails \<Rightarrow> f | DumpFails \<Rightarrow> BadJson)"

text \<open>\<^verbatim>\<open>if k not in task: task[k] = v\<close>\<close>

definition fill_missing :: "string \<Rightarrow> json \<Rightarrow> json \<Rightarrow> py_error + json" where
  "fill_missing k v task =
     py_bind (py_in k task) (\<lambda>present. if present then Inr task else setitem task k v)"

text \<open>\<^verbatim>\<open>if k not in task: task[k] = f(datetime.now())\<close>; \<open>n\<close> counts the clock readings made
  so far, and a reading is made only when the field is missing.\<close>

definition fill_from_clock ::
    "string \<Rightarrow> (datetime \<Rightarrow> json) \<Rightarrow> clock \<Rightarrow> nat \<Rightarrow> json \<Rightarrow> py_error + (json \<times> nat)" where
  "fill_from_clock k f now n task =
     py_bind (py_in k task) (\<lambda>present.
       if present then Inr (task, n)
       else py_bind (setitem task k (f (now n))) (\<lambda>t. Inr (t, Suc n)))"

text \<open>The body of the back-fill loop for one element.\<close>

definition load_one :: "clock \<Rightarrow> nat \<Rightarrow> json \<Rightarrow> py_error + (json \<times> nat)" where
  "load_one now n task =
     py_bind (fill_from_clock ''id'' (\<lambda>d. JNum (timestamp d)) now n task) (\<lambda>(t1, n1).
     py_bind (fill_missing ''priority'' (JStr ''Medium'') t1) (\<lambda>t2.
     py_bind (fill_from_clock ''created_at'' (\<lambda>d. JStr (isoformat d)) now n1 t2) (\<lambda>(t3, n3).
     py_bind (fill_missing ''completed_at'' JNull t3) (\<lambda>t4. Inr (t4, n3)))))"

fun load_loop :: "clock \<Rightarrow> nat \<Rightarrow> json list \<Rightarrow> py_error + json list" where
  "load_loop now n [] = Inr []"
| "load_loop now n (task # rest) =
     py_bind (load_one now n task) (\<lambda>(task', n').
     py_bind (load_loop now n' rest) (\<lambda>rest'. Inr (task' # rest')))"

text \<open>
  \<^verbatim>\<open>load_tasks\<close> returns whatever \<^verbatim>\<open>json.load\<close> gave, after the loop. Only a list holds
  dictionaries that the loop can change; the elements of anything else iterable are strings,
  which the loop can only accept or fail on. Only \<^verbatim>\<open>JSONDecodeError\<close> and
  \<^verbatim>\<open>FileNotFoundError\<close> are caught.
\<close>

definition load_tasks :: "clock \<Rightarrow> json_file \<Rightarrow> py_error + json" where
  "load_tasks now f =
     (case f of
        NoFile \<Rightarrow> Inr (JArr [])
      | Vanished \<Rightarrow> Inr (JArr [])
      | Unreadable \<Rightarrow> Inl OSError
      | NotUtf8 \<Rightarrow> Inl UnicodeDecodeError
      | BadJson \<Rightarrow> Inr (JArr [])
      | Parsed tasks \<Rightarrow>
          (case tasks of
             JArr xs \<Rightarrow> py_bind (load_loop now 0 xs) (\<lambda>ys. Inr (JArr ys))
           | _ \<Rightarrow> py_bind (py_iter tasks) (\<lambda>xs.
                  py_bind (load_loop now 0 xs) (\<lambda>ys. Inr tasks))))"

section \<open>The session and its operations\<close>

text \<open>\<^verbatim>\<open>st.session_state.tasks\<close> and the file. An operation that raises leaves both as they
  were: every exception below happens before the first assignment.\<close>

record session =
  session_tasks :: "json list"
  data_file :: json_file

definition persist :: "write_outcome \<Rightarrow> json list \<Rightarrow> session \<Rightarrow> session" where
  "persist w ts s = \<lparr>session_tasks = ts, data_file = save_tasks w ts (data_file s)\<rparr>"

fun toggle_loop :: "clock \<Rightarrow> json \<Rightarrow> json list \<Rightarrow> py_error + json list" where
  "toggle_loop now task_id [] = Inr []"
| "toggle_loop now task_id (task # rest) =
     py_bind (getitem task ''id'') (\<lambda>i.
       if py_eq i task_id then
         py_bind (getitem task ''done'') (\<lambda>d.
         py_bind (setitem task ''done'' (JBool (\<not> truthy d))) (\<lambda>t1.
         py_bind (getitem t1 ''done'') (\<lambda>d1.
         py_bind (setitem t1 ''completed_at''
                    (if truthy d1 then JStr (isoformat (now 0)) else JNull)) (\<lambda>t2.
         Inr (t2 # rest)))))
       else py_bind (toggle_loop now task_id rest) (\<lambda>rest'. Inr (task # rest')))"

definition toggle_task_completion ::
    "clock \<Rightarrow> write_outcome \<Rightarrow> json \<Rightarrow> session \<Rightarrow> py_error + session" where
  "toggle_task_completion now w task_id s =
     py_bind (toggle_loop now task_id (session_tasks s)) (\<lambda>ts. Inr (persist w ts s))"

fun delete_filter :: "json \<Rightarrow> json list \<Rightarrow> py_error + json list" where
  "delete_filter task_id [] = Inr []"
| "delete_filter task_id (task # rest) =
     py_bind (getitem task ''id'') (\<lambda>i.
     py_bind (delete_filter task_id rest) (\<lambda>rest'.
     Inr (if \<not> py_eq i task_id then task # rest' else rest')))"

definition delete_task :: "write_outcome \<Rightarrow> json \<Rightarrow> session \<Rightarrow> py_error + session" where
  "delete_task w task_id s =
     py_bind (delete_filter task_id (session_tasks s)) (\<lambda>ts. Inr (persist w ts s))"

fun edit_loop :: "json \<Rightarrow> string \<Rightarrow> string \<Rightarrow> json list \<Rightarrow> py_error + json list" where
  "edit_loop task_id new_text new_priority [] = Inr []"
| "edit_loop task_id new_text new_priority (task # rest) =
     py_bind (getitem task ''id'') (\<lambda>i.
       if py_eq i task_id then
         py_bind (setitem task ''task'' (JStr new_text)) (\<lambda>t1.
         py_bind (setitem t1 ''priority'' (JStr new_priority)) (\<lambda>t2.
         Inr (t2 # rest)))
       else py_bind (edit_loop task_id new_text new_priority rest) (\<lambda>rest'.
            Inr (task # rest')))"

definition edit_task ::
    "write_outcome \<Rightarrow> json \<Rightarrow> string \<Rightarrow> string \<Rightarrow> session \<Rightarrow> py_error + session" where
  "edit_task w task_id new_text new_priority s =
     py_bind (edit_loop task_id new_text new_priority (session_tasks s)) (\<lambda>ts. Inr (persist w ts s))"

text \<open>The "Clear Completed" button: \<^verbatim>\<open>[task for task in tasks if not task["done"]]\<close>.\<close>

fun pending_filter :: "json list \<Rightarrow> py_error + json list" where
  "pending_filter [] = Inr []"
| "pending_filter (task # rest) =
     py_bind (getitem task ''done'') (\<lambda>d.
     py_bind (pending_filter rest) (\<lambda>rest'.
     Inr (if \<not> truthy d then task # rest' else rest')))"

definition clear_completed :: "write_outcome \<Rightarrow> session \<Rightarrow> py_error + session" where
  "clear_completed w s = py_bind (pending_filter (session_tasks s)) (\<lambda>ts. Inr (persist w ts s))"

text \<open>The "Confirm Import" button: \<^verbatim>\<open>tasks.extend(imported_tasks)\<close>, where \<open>imported_tasks\<close>
  is what \<^verbatim>\<open>json.load\<close> made of the uploaded file.\<close>

definition import_tasks :: "write_outcome \<Rightarrow> json \<Rightarrow> session \<Rightarrow> py_error + session" where
  "import_tasks w imported_tasks s =
     py_bind (py_iter imported_tasks) (\<lambda>xs. Inr (persist w (session_tasks s @ xs) s))"

text \<open>The "Add Task" form: nothing happens unless the stripped text is non-empty.\<close>

definition add_task :: "clock \<Rightarrow> write_outcome \<Rightarrow> string \<Rightarrow> string \<Rightarrow> session \<Rightarrow> session" where
  "add_task now w new_task priority s =
     (if py_strip new_task \<noteq> []
      then persist w (session_tasks s @ [create_task now (py_strip new_task) priority]) s
      else s)"

subsection \<open>Sequences of user actions\<close>

datatype action =
    Add clock write_outcome string string
  | Toggle clock write_outcome json
  | Edit write_outcome json string string
  | Delete write_outcome json
  | ClearCompleted write_outcome
  | ImportBatch write_outcome json

fun perform :: "action \<Rightarrow> session \<Rightarrow> py_error + session" where
  "perform (Add now w text priority) s = Inr (add_task now w text priority s)"
| "perform (Toggle now w task_id) s = toggle_task_completion now w task_id s"
| "perform (Edit w task_id new_text new_priority) s = edit_task w task_id new_text new_priority s"
| "perform (Delete w task_id) s = delete_task w task_id s"
| "perform (ClearCompleted w) s = clear_completed w s"
| "perform (ImportBatch w imported) s = import_tasks w imported s"

text \<open>An action that raises shows the traceback and leaves the session as it was.\<close>

definition step :: "action \<Rightarrow> session \<Rightarrow> session" where
  "step a s = (case perform a s of Inl e \<Rightarrow> s | Inr s' \<Rightarrow> s')"

fun run :: "action list \<Rightarrow> session \<Rightarrow> session" where
  "run [] s = s"
| "run (a # as) s = run as (step a s)"

section \<open>Sorting\<close>

text \<open>\<^verbatim>\<open>priority_order.get(p, 1)\<close>: looking up a list or a dictionary raises (unhashable).\<close>

fun priority_order_get :: "json \<Rightarrow> py_error + int" where
  "priority_order_get (JStr p) =
     Inr (if p = ''High'' then 0 else if p = ''Medium'' then 1 else if p = ''Low'' then 2 else 1)"
| "priority_order_get (JArr xs) = Inl TypeError"
| "priority_order_get (JObj d) = Inl TypeError"
| "priority_order_get _ = Inr 1"

fun str_lower :: "json \<Rightarrow> py_error + string" where
  "str_lower (JStr s) = Inr (py_lower s)"
| "str_lower _ = Inl AttributeError"

text \<open>The three \<^verbatim>\<open>key=\<close> functions; each returns a pair.\<close>

definition priority_key :: "json \<Rightarrow> py_error + (json \<times> json)" where
  "priority_key x =
     py_bind (getitem x ''done'') (\<lambda>d.
     py_bind (getitem x ''priority'') (\<lambda>p.
     py_bind (priority_order_get p) (\<lambda>r. Inr (d, JNum (of_int r)))))"

definition created_key :: "json \<Rightarrow> py_error + (json \<times> json)" where
  "created_key x =
     py_bind (getitem x ''done'') (\<lambda>d.
     py_bind (getitem x ''created_at'') (\<lambda>c. Inr (d, c)))"

definition alphabetical_key :: "json \<Rightarrow> py_error + (json \<times> json)" where
  "alphabetical_key x =
     py_bind (getitem x ''done'') (\<lambda>d.
     py_bind (getitem x ''task'') (\<lambda>t.
     py_bind (str_lower t) (\<lambda>l. Inr (d, JStr l))))"

text \<open>\<^verbatim>\<open>sorted\<close> computes the key of every element, in list order, before it compares.\<close>

fun keyed :: "(json \<Rightarrow> py_error + 'k) \<Rightarrow> json list \<Rightarrow> py_error + ('k \<times> json) list" where
  "keyed f [] = Inr []"
| "keyed f (x # xs) =
     py_bind (f x) (\<lambda>k. py_bind (keyed f xs) (\<lambda>rest. Inr ((k, x) # rest)))"

fun is_number :: "json \<Rightarrow> bool" where
  "is_number (JBool b) = True"
| "is_number (JNum n) = True"
| "is_number _ = False"

fun num_of :: "json \<Rightarrow> rat" where
  "num_of (JBool b) = of_bool b"
| "num_of (JNum n) = n"
| "num_of _ = 0"

fun is_str :: "json \<Rightarrow> bool" where
  "is_str (JStr s) = True"
| "is_str _ = False"

fun str_of :: "json \<Rightarrow> string" where
  "str_of (JStr s) = s"
| "str_of _ = []"

text \<open>
  \<^verbatim>\<open>sorted(xs, key=f)\<close> for a key function returning pairs. Python compares two pairs by
  their first components unless these are \<^verbatim>\<open>==\<close>, and its sort is stable. Where \<^verbatim>\<open><\<close> is a
  total order on the keys, the result of a stable sort does not depend on the algorithm, and
  is the one \<^const>\<open>sort_key\<close> computes. That is so when every first component is a number or
  boolean (compared by value, \<^verbatim>\<open>False < True\<close>) and the second components are all numbers
  or all strings (compared by code points). A list of at most one element is returned
  without any comparison. Any other list of keys is outside the model: there Python raises
  \<^verbatim>\<open>TypeError\<close> or not depending on the pairs its algorithm happens to compare.
\<close>

definition py_sorted :: "(json \<Rightarrow> py_error + (json \<times> json)) \<Rightarrow> json list \<Rightarrow> py_error + json list" where
  "py_sorted f xs =
     py_bind (keyed f xs) (\<lambda>kxs.
       if length kxs \<le> 1 then Inr xs
       else if list_all (\<lambda>((d, k), x). is_number d \<and> is_number k) kxs
       then Inr (map snd (sort_key (\<lambda>((d, k), x). (num_of d, num_of k)) kxs))
       else if list_all (\<lambda>((d, k), x). is_number d \<and> is_str k) kxs
       then Inr (map snd (sort_key (\<lambda>((d, k), x). (num_of d, str_of k)) kxs))
       else Inl NotModelled)"

definition sort_tasks :: "json list \<Rightarrow> string \<Rightarrow> py_error + json list" where
  "sort_tasks tasks sort_by =
     (if sort_by = ''Priority'' then py_sorted priority_key tasks
      else if sort_by = ''Created Date'' then py_sorted created_key tasks
      else if sort_by = ''Alphabetical'' then py_sorted alphabetical_key tasks
      else Inr tasks)"

section \<open>Properties of records and collections\<close>

text \<open>The field \<open>k\<close> of a record exists and its value satisfies \<open>P\<close>.\<close>

definition has_field :: "(json \<Rightarrow> bool) \<Rightarrow> string \<Rightarrow> json \<Rightarrow> bool" where
  "has_field P k task = (case getitem task k of Inr v \<Rightarrow> P v | Inl e \<Rightarrow> False)"

definition has_key :: "string \<Rightarrow> json \<Rightarrow> bool" where
  "has_key k task = has_field (\<lambda>v. True) k task"

text \<open>The record is the one an operation on \<open>task_id\<close> looks for: \<^verbatim>\<open>task["id"] == task_id\<close>.\<close>

definition id_is :: "json \<Rightarrow> json \<Rightarrow> bool" where
  "id_is task_id task = has_field (\<lambda>i. py_eq i task_id) ''id'' task"

fun is_obj :: "json \<Rightarrow> bool" where
  "is_obj (JObj d) = True"
| "is_obj _ = False"

text \<open>A value that is no container: null, a boolean or a number.\<close>

fun is_scalar :: "json \<Rightarrow> bool" where
  "is_scalar JNull = True"
| "is_scalar (JBool b) = True"
| "is_scalar (JNum n) = True"
| "is_scalar _ = False"

fun is_bool :: "json \<Rightarrow> bool" where
  "is_bool (JBool b) = True"
| "is_bool _ = False"

text \<open>A record carrying all six fields of the data model.\<close>

definition carries_all_fields :: "json \<Rightarrow> bool" where
  "carries_all_fields task =
     list_all (\<lambda>k. has_key k task)
       [''id'', ''task'', ''done'', ''priority'', ''created_at'', ''completed_at'']"

text \<open>A record whose sort keys have the types of the data model: \<open>done\<close> a boolean, the
  priority, the creation time and the text strings.\<close>

definition well_typed :: "json \<Rightarrow> bool" where
  "well_typed task =
     (has_field is_bool ''done'' task \<and> has_field is_str ''priority'' task
      \<and> has_field is_str ''created_at'' task \<and> has_field is_str ''task'' task)"

text \<open>The invariant of the data model: \<open>done == true\<close> exactly when \<open>completed_at\<close> is present
  and not null.\<close>

definition done_true :: "json \<Rightarrow> bool" where
  "done_true task = has_field (\<lambda>d. py_eq d (JBool True)) ''done'' task"

definition completed_present :: "json \<Rightarrow> bool" where
  "completed_present task = has_field (\<lambda>c. c \<noteq> JNull) ''completed_at'' task"

definition consistent :: "json \<Rightarrow> bool" where
  "consistent task = (done_true task = completed_present task)"

text \<open>An import whose records all satisfy the invariant; and a file whose records do.\<close>

fun imports_consistent :: "action \<Rightarrow> bool" where
  "imports_consistent (ImportBatch w imported) =
     (case py_iter imported of Inr xs \<Rightarrow> list_all consistent xs | Inl e \<Rightarrow> True)"
| "imports_consistent _ = True"

fun file_consistent :: "json_file \<Rightarrow> bool" where
  "file_consistent (Parsed (JArr xs)) = list_all consistent xs"
| "file_consistent _ = True"

text \<open>Two records with different ids (both must have one), and a collection whose records
  have pairwise different ids.\<close>

definition ids_differ :: "json \<Rightarrow> json \<Rightarrow> bool" where
  "ids_differ a b =
     (case getitem a ''id'' of
        Inr i \<Rightarrow> (case getitem b ''id'' of Inr j \<Rightarrow> \<not> py_eq i j | Inl e \<Rightarrow> False)
      | Inl e \<Rightarrow> False)"

definition unique_ids :: "json list \<Rightarrow> bool" where
  "unique_ids ts = sorted_wrt ids_differ ts"

text \<open>An action that brings no id the collection already has: the clock gives "Add Task" a
  timestamp that is no record's id, and an import brings records whose ids differ from each
  other and from those present.\<close>

fun brings_fresh_ids :: "action \<Rightarrow> session \<Rightarrow> bool" where
  "brings_fresh_ids (Add now w text priority) s =
     list_all (\<lambda>t. ids_differ t (create_task now (py_strip text) priority)) (session_tasks s)"
| "brings_fresh_ids (ImportBatch w imported) s =
     (case py_iter imported of
        Inr xs \<Rightarrow> unique_ids xs \<and> list_all (\<lambda>t. list_all (ids_differ t) xs) (session_tasks s)
      | Inl e \<Rightarrow> True)"
| "brings_fresh_ids _ s = True"

fun all_bring_fresh_ids :: "action list \<Rightarrow> session \<Rightarrow> bool" where
  "all_bring_fresh_ids [] s = True"
| "all_bring_fresh_ids (a # as) s = (brings_fresh_ids a s \<and> all_bring_fresh_ids as (step a s))"

text \<open>
  What the specification calls back-filling: \<open>b\<close> is the record \<open>a\<close> with every field it had
  kept, and with \<open>id\<close>, \<open>priority\<close>, \<open>created_at\<close> and \<open>completed_at\<close> given their defaults
  where they were missing: a timestamp of the clock, \<open>"Medium"\<close>, a time of the clock in ISO
  format, and null. No other field is added.
\<close>

definition backfilled :: "clock \<Rightarrow> json \<Rightarrow> json \<Rightarrow> bool" where
  "backfilled now a b =
     (\<exists>d d'. a = JObj d \<and> b = JObj d'
        \<and> (\<forall>k v. map_of d k = Some v \<longrightarrow> map_of d' k = Some v)
        \<and> (map_of d ''id'' = None \<longrightarrow> (\<exists>m. map_of d' ''id'' = Some (JNum (timestamp (now m)))))
        \<and> (map_of d ''priority'' = None \<longrightarrow> map_of d' ''priority'' = Some (JStr ''Medium''))
        \<and> (map_of d ''created_at'' = None \<longrightarrow>
             (\<exists>m. map_of d' ''created_at'' = Some (JStr (isoformat (now m)))))
        \<and> (map_of d ''completed_at'' = None \<longrightarrow> map_of d' ''completed_at'' = Some JNull)
        \<and> (\<forall>k. k \<notin> {''id'', ''priority'', ''created_at'', ''completed_at''} \<longrightarrow>
               map_of d k = None \<longrightarrow> map_of d' k = None))"

subsection \<open>The order the specification asks of \<open>sort\<close>\<close>

text \<open>
  The value of a field (null when the record has none); a completed record; the rank of a
  priority (High before Medium before Low, an unrecognized priority counting as Medium);
  the secondary order of each sort key; the order as a whole, incomplete before completed
  first; and two records that this order does not separate.
\<close>

definition field :: "string \<Rightarrow> json \<Rightarrow> json" where
  "field k task = (case getitem task k of Inr v \<Rightarrow> v | Inl e \<Rightarrow> JNull)"

definition is_done :: "json \<Rightarrow> bool" where
  "is_done task = (field ''done'' task = JBool True)"

definition spec_rank :: "json \<Rightarrow> int" where
  "spec_rank p = (if p = JStr ''High'' then 0 else if p = JStr ''Low'' then 2 else 1)"

definition secondary_before :: "string \<Rightarrow> json \<Rightarrow> json \<Rightarrow> bool" where
  "secondary_before sort_by a b =
     (if sort_by = ''Priority''
        then spec_rank (field ''priority'' a) < spec_rank (field ''priority'' b)
      else if sort_by = ''Created Date''
        then str_of (field ''created_at'' a) < str_of (field ''created_at'' b)
      else if sort_by = ''Alphabetical''
        then py_lower (str_of (field ''task'' a)) < py_lower (str_of (field ''task'' b))
      else False)"

definition spec_before :: "string \<Rightarrow> json \<Rightarrow> json \<Rightarrow> bool" where
  "spec_before sort_by a b =
     ((\<not> is_done a \<and> is_done b) \<or> (is_done a = is_done b \<and> secondary_before sort_by a b))"

definition tied :: "string \<Rightarrow> json \<Rightarrow> json \<Rightarrow> bool" where
  "tied sort_by a b = (\<not> spec_before sort_by a b \<and> \<not> spec_before sort_by b a)"

text \<open>The sort keys of the code on records of the expected types.\<close>

definition typed_key_priority :: "json \<Rightarrow> rat \<times> rat" where
  "typed_key_priority t = (of_bool (is_done t), of_int (spec_rank (field ''priority'' t)))"

definition typed_key_created :: "json \<Rightarrow> rat \<times> string" where
  "typed_key_created t = (of_bool (is_done t), str_of (field ''created_at'' t))"

definition typed_key_alphabetical :: "json \<Rightarrow> rat \<times> string" where
  "typed_key_alphabetical t = (of_bool (is_done t), py_lower (str_of (field ''task'' t)))"

text \<open>What one run of the toggle loop, or of the edit loop, does to a record: nothing, or the
  two assignments of the loop body.\<close>

definition toggled_from :: "clock \<Rightarrow> json \<Rightarrow> json \<Rightarrow> bool" where
  "toggled_from now a b =
     (b = a \<or> (\<exists>d dv. a = JObj d \<and> map_of d ''done'' = Some dv
        \<and> b = JObj (AList.update ''completed_at''
                      (if \<not> truthy dv then JStr (isoformat (now 0)) else JNull)
                      (AList.update ''done'' (JBool (\<not> truthy dv)) d))))"

definition edited_from :: "string \<Rightarrow> string \<Rightarrow> json \<Rightarrow> json \<Rightarrow> bool" where
  "edited_from new_text new_priority a b =
     (b = a \<or> (\<exists>d. a = JObj d
        \<and> b = JObj (AList.update ''priority'' (JStr new_priority)
                      (AList.update ''task'' (JStr new_text) d))))"

text \<open>The invariant on the session and on the file it saved.\<close>

definition state_consistent :: "session \<Rightarrow> bool" where
  "state_consistent s = (list_all consistent (session_tasks s) \<and> file_consistent (data_file s))"

section \<open>Example data\<close>

text \<open>Two clocks whose readings are one second apart.\<close>

definition noon :: clock where
  "noon k = \<lparr>timestamp = 1704456000 + of_nat k, isoformat = ''2024-01-05T12:00:00''\<rparr>"

definition evening :: clock where
  "evening k = \<lparr>timestamp = 1704481200 + of_nat k, isoformat = ''2024-01-05T19:00:00''\<rparr>"

definition empty_session :: session where
  "empty_session = \<lparr>session_tasks = [], data_file = NoFile\<rparr>"

definition example_task :: "rat \<Rightarrow> string \<Rightarrow> bool \<Rightarrow> string \<Rightarrow> string \<Rightarrow> json \<Rightarrow> json" where
  "example_task i text finished priority created completed = JObj
     [(''id'', JNum i), (''task'', JStr text), (''done'', JBool finished),
      (''priority'', JStr priority), (''created_at'', JStr created), (''completed_at'', completed)]"

definition milk :: json where
  "milk = example_task 1 ''Buy milk'' False ''High'' ''2024-01-02T09:00:00'' JNull"

definition bread :: json where
  "bread = example_task 2 ''bake bread'' True ''Low'' ''2024-01-01T09:00:00''
     (JStr ''2024-01-03T08:30:00'')"

definition tea :: json where
  "tea = example_task 3 ''Call the tea shop'' False ''Medium'' ''2024-01-03T09:00:00'' JNull"

definition milk_again :: json where
  "milk_again = example_task 1 ''buy more milk'' False ''Low'' ''2024-01-04T09:00:00'' JNull"

definition shopping :: session where
  "shopping = \<lparr>session_tasks = [milk, bread, milk_again, tea], data_file = NoFile\<rparr>"

definition pantry :: session where
  "pantry = \<lparr>session_tasks = [milk, bread, tea], data_file = NoFile\<rparr>"

definition oats :: json where
  "oats = example_task 4 ''Order oats'' True ''Medium'' ''2024-01-04T07:00:00''
     (JStr ''2024-01-04T18:00:00'')"

definition busy_day :: "action list" where
  "busy_day =
     [Add evening WriteOk '' Water the plants '' ''Low'',
      Toggle noon WriteOk (JNum 1),
      ImportBatch WriteOk (JArr [oats]),
      Edit WriteOk (JNum 3) ''Call the coffee shop'' ''High'',
      Delete DumpFails (JNum 2),
      ClearCompleted WriteOk]"

definition unfinished :: json where
  "unfinished = example_task 5 ''Imported chore'' True ''Low'' ''2024-01-04T07:00:00'' JNull"

definition legacy :: json where
  "legacy = JObj [(''task'', JStr ''Old chore''), (''done'', JBool False)]"

definition legacy_done :: json where
  "legacy_done = JObj [(''task'', JStr ''Old chore''), (''done'', JBool True)]"

definition legacy_loaded :: json where
  "legacy_loaded = JObj [(''task'', JStr ''Old chore''), (''done'', JBool False),
     (''id'', JNum 1704456000), (''priority'', JStr ''Medium''),
     (''created_at'', JStr ''2024-01-05T12:00:00''), (''completed_at'', JNull)]"

definition legacy_done_loaded :: json where
  "legacy_done_loaded = JObj [(''task'', JStr ''Old chore''), (''done'', JBool True),
     (''id'', JNum 1704456000), (''priority'', JStr ''Medium''),
     (''created_at'', JStr ''2024-01-05T12:00:00''), (''completed_at'', JNull)]"

definition bread_off :: json where
  "bread_off = example_task 2 ''bake bread'' False ''Low'' ''2024-01-01T09:00:00'' JNull"

definition bread_back :: json where
  "bread_back = example_task 2 ''bake bread'' True ''Low'' ''2024-01-01T09:00:00''
     (JStr ''2024-01-05T19:00:00'')"

definition pantry_once :: session where
  "pantry_once = \<lparr>session_tasks = [milk, bread_off, tea],
                   data_file = Parsed (JArr [milk, bread_off, tea])\<rparr>"

definition pantry_twice :: session where
  "pantry_twice = \<lparr>session_tasks = [milk, bread_back, tea],
                    data_file = Parsed (JArr [milk, bread_back, tea])\<rparr>"

definition urgent :: json where
  "urgent = example_task 6 ''Renew passport'' False ''Urgent'' ''2024-01-04T10:00:00'' JNull"

definition no_priority :: json where
  "no_priority = JObj [(''id'', JNum 7), (''task'', JStr ''Old chore''), (''done'', JBool False),
     (''created_at'', JStr ''2023-06-01T08:00:00''), (''completed_at'', JNull)]"

definition no_priority_loaded :: json where
  "no_priority_loaded = JObj [(''id'', JNum 7), (''task'', JStr ''Old chore''),
     (''done'', JBool False), (''created_at'', JStr ''2023-06-01T08:00:00''),
     (''completed_at'', JNull), (''priority'', JStr ''Medium'')]"

definition chores :: "json list" where
  "chores = [bread, milk_again, tea, milk]"

section \<open>Basic facts\<close>

lemma py_bind_Inl [simp]: "py_bind (Inl e) f = Inl e"
  by (simp add: py_bind_def)

lemma py_bind_Inr [simp]: "py_bind (Inr x) f = f x"
  by (simp add: py_bind_def)

lemma py_bind_eq_Inr: "py_bind m f = Inr y \<longleftrightarrow> (\<exists>x. m = Inr x \<and> f x = Inr y)"
  by (cases m) simp_all

lemma getitem_eq_Inr: "getitem t k = Inr v \<longleftrightarrow> (\<exists>d. t = JObj d \<and> map_of d k = Some v)"
  by (cases t) (auto split: option.splits)

lemma session_tasks_persist [simp]: "session_tasks (persist w ts s) = ts"
  by (simp add: persist_def)

lemma has_field_iff: "has_field P k t \<longleftrightarrow> (\<exists>v. getitem t k = Inr v \<and> P v)"
  by (cases "getitem t k") (simp_all add: has_field_def)

lemma has_key_iff: "has_key k t \<longleftrightarrow> (\<exists>v. getitem t k = Inr v)"
  by (simp add: has_key_def has_field_iff)

lemma id_is_iff: "id_is task_id t \<longleftrightarrow> (\<exists>i. getitem t ''id'' = Inr i \<and> py_eq i task_id)"
  by (simp add: id_is_def has_field_iff)

lemma map_of_update_other: "k \<noteq> k' \<Longrightarrow> map_of (AList.update k' v d) k = map_of d k"
  by (simp add: update_conv')

lemmas example_defs = example_task_def milk_def bread_def tea_def milk_again_def shopping_def
  empty_session_def

lemmas field_defs = has_field_def has_key_def id_is_def

lemmas more_defs = pantry_def oats_def busy_day_def unfinished_def legacy_def legacy_done_def
  bread_off_def bread_back_def legacy_loaded_def legacy_done_loaded_def pantry_once_def pantry_twice_def noon_def evening_def

lemmas load_example_defs = urgent_def no_priority_def no_priority_loaded_def

lemmas sort_defs = sort_tasks_def py_sorted_def priority_key_def created_key_def
  alphabetical_key_def py_lower_def

lemmas inv_defs = consistent_def done_true_def completed_present_def has_field_def

lemmas load_defs = load_tasks_def load_one_def fill_from_clock_def fill_missing_def

section \<open>New tasks are incomplete\<close>

text \<open>
  Claim C9. Whatever the text and the priority, the record that \<open>create_task\<close> builds has
  \<open>done\<close> equal to \<open>False\<close> and \<open>completed_at\<close> equal to \<open>None\<close>; and when the stripped text of
  the form is not empty, "Add Task" appends exactly one record, which has these two values.
\<close>

theorem create_task_enters_incomplete:
  "getitem (create_task now text priority) ''done'' = Inr (JBool False)
   \<and> getitem (create_task now text priority) ''completed_at'' = Inr JNull
   \<and> (py_strip new_task \<noteq> [] \<longrightarrow>
        (\<exists>t. session_tasks (add_task now w new_task priority s) = session_tasks s @ [t]
           \<and> getitem t ''done'' = Inr (JBool False)
           \<and> getitem t ''completed_at'' = Inr JNull))"
  by (simp add: create_task_def add_task_def persist_def)

text \<open>An instance: adding \<open>" Buy milk "\<close> to the empty session.\<close>

theorem create_task_enters_incomplete_witness:
  "py_strip '' Buy milk '' \<noteq> []
   \<and> (\<exists>t. session_tasks (add_task noon WriteOk '' Buy milk '' ''High'' empty_session) = [] @ [t]
         \<and> getitem t ''done'' = Inr (JBool False)
         \<and> getitem t ''completed_at'' = Inr JNull)"
proof -
  have ne: "py_strip '' Buy milk '' \<noteq> []"
    by (simp add: py_strip_def is_space_def)
  from create_task_enters_incomplete
    [of noon "''x''" "''High''" "'' Buy milk ''" WriteOk empty_session] ne
  show ?thesis by (simp add: empty_session_def)
qed

section \<open>Deleting\<close>

lemma delete_filter_result:
  "delete_filter task_id ts = Inr ts' \<Longrightarrow> ts' = filter (\<lambda>t. \<not> id_is task_id t) ts"
proof (induction ts arbitrary: ts')
  case Nil
  then show ?case by simp
next
  case (Cons t ts)
  from Cons.prems obtain i rest where i: "getitem t ''id'' = Inr i"
    and rest: "delete_filter task_id ts = Inr rest"
    and ts': "ts' = (if \<not> py_eq i task_id then t # rest else rest)"
    by (auto simp: py_bind_eq_Inr)
  from Cons.IH [OF rest] i ts' show ?case by (simp add: id_is_iff)
qed

lemma delete_filter_total:
  "list_all (has_key ''id'') ts \<Longrightarrow> \<exists>ts'. delete_filter task_id ts = Inr ts'"
proof (induction ts)
  case Nil
  show ?case by simp
next
  case (Cons t ts)
  then obtain i rest where "getitem t ''id'' = Inr i" "delete_filter task_id ts = Inr rest"
    by (auto simp: has_key_iff)
  then show ?case by simp
qed

text \<open>
  Claim C10. In a collection whose records all have an id, \<open>delete_task\<close> returns; the new
  collection is the old one without the records whose id equals the given one, all of them and
  not only the first, the others in their old order; and when no record has that id the
  collection is the same. (A record without an id makes the comprehension raise
  \<^verbatim>\<open>KeyError\<close>.)
\<close>

theorem delete_task_removes_all_matches:
  assumes "list_all (has_key ''id'') (session_tasks s)"
  shows "\<exists>s'. delete_task w task_id s = Inr s'
     \<and> session_tasks s' = filter (\<lambda>t. \<not> id_is task_id t) (session_tasks s)
     \<and> list_all (\<lambda>t. \<not> id_is task_id t) (session_tasks s')
     \<and> (list_all (\<lambda>t. \<not> id_is task_id t) (session_tasks s) \<longrightarrow>
          session_tasks s' = session_tasks s)"
proof -
  let ?keep = "filter (\<lambda>t. \<not> id_is task_id t) (session_tasks s)"
  from delete_filter_total [OF assms] obtain ts' where
    ts': "delete_filter task_id (session_tasks s) = Inr ts'" by blast
  with delete_filter_result have "ts' = ?keep" by blast
  with ts' have "delete_task w task_id s = Inr (persist w ?keep s)"
    by (simp add: delete_task_def)
  moreover have "list_all (\<lambda>t. \<not> id_is task_id t) ?keep"
    by (simp add: list_all_iff)
  moreover have "list_all (\<lambda>t. \<not> id_is task_id t) (session_tasks s) \<longrightarrow> ?keep = session_tasks s"
    by (simp add: list_all_iff)
  ultimately show ?thesis by simp
qed

text \<open>An instance: two records have id 1; deleting id 1 removes both and keeps the other two in order.\<close>

theorem delete_task_removes_all_matches_witness:
  "list_all (has_key ''id'') (session_tasks shopping)
   \<and> (\<exists>s'. delete_task WriteOk (JNum 1) shopping = Inr s' \<and> session_tasks s' = [bread, tea])"
proof -
  have h: "list_all (has_key ''id'') (session_tasks shopping)"
    by (simp add: example_defs field_defs)
  have f: "filter (\<lambda>t. \<not> id_is (JNum 1) t) (session_tasks shopping) = [bread, tea]"
    by (simp add: example_defs field_defs)
  from delete_task_removes_all_matches [OF h, of WriteOk "JNum 1"] f h
  show ?thesis by auto
qed

section \<open>Editing\<close>

lemma edit_loop_frame:
  "list_all (has_key ''id'') ts \<Longrightarrow>
   \<exists>ts'. edit_loop task_id new_text new_priority ts = Inr ts'
     \<and> (list_all (\<lambda>t. \<not> id_is task_id t) ts \<longrightarrow> ts' = ts)
     \<and> list_all2 (\<lambda>a b. b = a \<or> (id_is task_id a \<and> (\<exists>d d'. a = JObj d \<and> b = JObj d'
           \<and> (\<forall>k. k \<noteq> ''task'' \<longrightarrow> k \<noteq> ''priority'' \<longrightarrow> map_of d' k = map_of d k)))) ts ts'"
  (is "_ \<Longrightarrow> \<exists>ts'. _ \<and> _ \<and> list_all2 ?P ts ts'")
proof (induction ts)
  case Nil
  show ?case by simp
next
  case (Cons t ts)
  from Cons.prems obtain i where i: "getitem t ''id'' = Inr i"
    by (auto simp: has_key_iff)
  then obtain d where d: "t = JObj d" by (auto simp: getitem_eq_Inr)
  have refl: "list_all2 ?P ts ts" by (simp add: list_all2_refl)
  show ?case
  proof (cases "py_eq i task_id")
    case True
    let ?d' = "AList.update ''priority'' (JStr new_priority) (AList.update ''task'' (JStr new_text) d)"
    from True i d have run: "edit_loop task_id new_text new_priority (t # ts) = Inr (JObj ?d' # ts)"
      by simp
    from True i have m: "id_is task_id t" by (simp add: id_is_iff)
    have "?P t (JObj ?d')"
      using m d by (simp add: map_of_update_other)
    with refl have "list_all2 ?P (t # ts) (JObj ?d' # ts)" by simp
    with run m show ?thesis by simp
  next
    case False
    from Cons obtain ts' where ih: "edit_loop task_id new_text new_priority ts = Inr ts'"
      "list_all (\<lambda>t. \<not> id_is task_id t) ts \<longrightarrow> ts' = ts" "list_all2 ?P ts ts'"
      by auto
    from False i ih(1) have "edit_loop task_id new_text new_priority (t # ts) = Inr (t # ts')"
      by simp
    with ih show ?thesis by simp
  qed
qed

text \<open>
  Claim C7. In a collection whose records all have an id, \<open>edit_task\<close> returns a collection of
  the same length in which every position holds the record it held before, except that a
  record with the given id may have been replaced by one that differs from it in the fields
  \<open>task\<close> and \<open>priority\<close> at most: every other field (\<open>id\<close>, \<open>done\<close>, \<open>created_at\<close>,
  \<open>completed_at\<close> among them) reads the same. When no record has the given id the collection
  is unchanged.
\<close>

theorem edit_task_frame:
  assumes "list_all (has_key ''id'') (session_tasks s)"
  shows "\<exists>s'. edit_task w task_id new_text new_priority s = Inr s'
     \<and> (list_all (\<lambda>t. \<not> id_is task_id t) (session_tasks s) \<longrightarrow> session_tasks s' = session_tasks s)
     \<and> list_all2 (\<lambda>a b. b = a \<or> (id_is task_id a \<and> (\<exists>d d'. a = JObj d \<and> b = JObj d'
           \<and> (\<forall>k. k \<noteq> ''task'' \<longrightarrow> k \<noteq> ''priority'' \<longrightarrow> map_of d' k = map_of d k))))
         (session_tasks s) (session_tasks s')"
proof -
  from edit_loop_frame [OF assms, of task_id new_text new_priority]
  obtain ts' where ts': "edit_loop task_id new_text new_priority (session_tasks s) = Inr ts'"
    "list_all (\<lambda>t. \<not> id_is task_id t) (session_tasks s) \<longrightarrow> ts' = session_tasks s"
    "list_all2 (\<lambda>a b. b = a \<or> (id_is task_id a \<and> (\<exists>d d'. a = JObj d \<and> b = JObj d'
           \<and> (\<forall>k. k \<noteq> ''task'' \<longrightarrow> k \<noteq> ''priority'' \<longrightarrow> map_of d' k = map_of d k))))
       (session_tasks s) ts'"
    by blast
  have "edit_task w task_id new_text new_priority s = Inr (persist w ts' s)"
    using ts'(1) by (simp add: edit_task_def)
  with ts'(2,3) show ?thesis by simp
qed

text \<open>An instance: two records have id 1; editing id 1 rewrites the text and priority of the first and leaves the rest of the session alone.\<close>

theorem edit_task_frame_witness:
  "list_all (has_key ''id'') (session_tasks shopping)
   \<and> (\<exists>s'. edit_task WriteOk (JNum 1) ''Buy oat milk'' ''Medium'' shopping = Inr s'
         \<and> session_tasks s' =
             [example_task 1 ''Buy oat milk'' False ''Medium'' ''2024-01-02T09:00:00'' JNull,
              bread, milk_again, tea])"
proof -
  have h: "list_all (has_key ''id'') (session_tasks shopping)"
    by (simp add: example_defs field_defs)
  have r: "edit_task WriteOk (JNum 1) ''Buy oat milk'' ''Medium'' shopping =
      Inr (persist WriteOk [example_task 1 ''Buy oat milk'' False ''Medium'' ''2024-01-02T09:00:00'' JNull,
              bread, milk_again, tea] shopping)"
    by (simp add: example_defs edit_task_def)
  from edit_task_frame [OF h, of WriteOk "JNum 1" "''Buy oat milk''" "''Medium''"] r h
  show ?thesis by auto
qed

section \<open>What the toggle and edit loops do to a record\<close>

lemma toggle_loop_shape:
  "toggle_loop now task_id ts = Inr ts' \<Longrightarrow> list_all2 (toggled_from now) ts ts'"
proof (induction ts arbitrary: ts')
  case Nil
  then show ?case by simp
next
  case (Cons t ts)
  from Cons.prems obtain i where i: "getitem t ''id'' = Inr i"
    by (auto simp: py_bind_eq_Inr)
  have same: "list_all2 (toggled_from now) ts ts"
    by (simp add: list_all2_refl toggled_from_def)
  show ?case
  proof (cases "py_eq i task_id")
    case True
    with Cons.prems i obtain d dv where "t = JObj d" "map_of d ''done'' = Some dv"
      "ts' = JObj (AList.update ''completed_at''
                      (if \<not> truthy dv then JStr (isoformat (now 0)) else JNull)
                      (AList.update ''done'' (JBool (\<not> truthy dv)) d)) # ts"
      by (cases t) (auto simp: py_bind_eq_Inr update_conv' split: option.splits)
    then obtain t' where "ts' = t' # ts" "toggled_from now t t'"
      by (simp add: toggled_from_def)
    with same show ?thesis by simp
  next
    case False
    with Cons.prems i obtain rest where "toggle_loop now task_id ts = Inr rest" "ts' = t # rest"
      by (auto simp: py_bind_eq_Inr)
    with Cons.IH show ?thesis by (simp add: toggled_from_def)
  qed
qed

lemma edit_loop_shape:
  "edit_loop task_id new_text new_priority ts = Inr ts' \<Longrightarrow>
     list_all2 (edited_from new_text new_priority) ts ts'"
proof (induction ts arbitrary: ts')
  case Nil
  then show ?case by simp
next
  case (Cons t ts)
  from Cons.prems obtain i where i: "getitem t ''id'' = Inr i"
    by (auto simp: py_bind_eq_Inr)
  have same: "list_all2 (edited_from new_text new_priority) ts ts"
    by (simp add: list_all2_refl edited_from_def)
  show ?case
  proof (cases "py_eq i task_id")
    case True
    with Cons.prems i obtain d where "t = JObj d"
      "ts' = JObj (AList.update ''priority'' (JStr new_priority)
                      (AList.update ''task'' (JStr new_text) d)) # ts"
      by (cases t) (auto simp: py_bind_eq_Inr)
    then obtain t' where "ts' = t' # ts" "edited_from new_text new_priority t t'"
      by (simp add: edited_from_def)
    with same show ?thesis by simp
  next
    case False
    with Cons.prems i obtain rest where
      "edit_loop task_id new_text new_priority ts = Inr rest" "ts' = t # rest"
      by (auto simp: py_bind_eq_Inr)
    with Cons.IH show ?thesis by (simp add: edited_from_def)
  qed
qed

lemma pending_filter_result:
  "pending_filter ts = Inr ts' \<Longrightarrow> ts' = filter (\<lambda>t. \<not> has_field truthy ''done'' t) ts"
proof (induction ts arbitrary: ts')
  case Nil
  then show ?case by simp
next
  case (Cons t ts)
  from Cons.prems obtain d rest where d: "getitem t ''done'' = Inr d"
    and rest: "pending_filter ts = Inr rest"
    and ts': "ts' = (if \<not> truthy d then t # rest else rest)"
    by (auto simp: py_bind_eq_Inr)
  from Cons.IH [OF rest] d ts' show ?case by (simp add: has_field_iff)
qed

lemma list_all2_preserves:
  "list_all2 R xs ys \<Longrightarrow> list_all P xs \<Longrightarrow> (\<And>a b. R a b \<Longrightarrow> P a \<Longrightarrow> P b) \<Longrightarrow> list_all P ys"
  by (induction rule: list_all2_induct) auto

lemma list_all2_same_image:
  "list_all2 R xs ys \<Longrightarrow> (\<And>a b. R a b \<Longrightarrow> f b = f a) \<Longrightarrow> map f ys = map f xs"
  by (induction rule: list_all2_induct) auto

subsection \<open>The invariant under one change\<close>

lemma consistent_obj:
  "consistent (JObj d) \<longleftrightarrow>
     ((\<exists>v. map_of d ''done'' = Some v \<and> py_eq v (JBool True))
      = (\<exists>c. map_of d ''completed_at'' = Some c \<and> c \<noteq> JNull))"
  by (auto simp: consistent_def done_true_def completed_present_def has_field_iff split: option.splits)

lemma toggled_consistent: "toggled_from now a b \<Longrightarrow> consistent a \<Longrightarrow> consistent b"
  by (auto simp: toggled_from_def consistent_obj update_conv')

lemma edited_consistent: "edited_from nt np a b \<Longrightarrow> consistent a \<Longrightarrow> consistent b"
  by (auto simp: edited_from_def consistent_obj update_conv')

lemma create_task_consistent: "consistent (create_task now text priority)"
  by (simp add: create_task_def consistent_obj)

section \<open>Toggling twice\<close>

lemma toggle_loop_no_match:
  "list_all (has_key ''id'') ts \<Longrightarrow> list_all (\<lambda>t. \<not> id_is task_id t) ts \<Longrightarrow>
     toggle_loop now task_id ts = Inr ts"
proof (induction ts)
  case Nil
  show ?case by simp
next
  case (Cons t ts)
  from Cons.prems obtain i where i: "getitem t ''id'' = Inr i"
    by (auto simp: has_key_iff)
  with Cons.prems have "\<not> py_eq i task_id" by (simp add: id_is_iff)
  with i Cons show ?case by simp
qed

lemma toggle_loop_match:
  assumes "list_all (has_key ''id'') pre" and "list_all (\<lambda>t. \<not> id_is task_id t) pre"
    and "id_is task_id (JObj d)" and "map_of d ''done'' = Some dv"
  shows "toggle_loop now task_id (pre @ JObj d # post) =
     Inr (pre @ JObj (AList.update ''completed_at''
                        (if \<not> truthy dv then JStr (isoformat (now 0)) else JNull)
                        (AList.update ''done'' (JBool (\<not> truthy dv)) d)) # post)"
  using assms(1,2)
proof (induction pre)
  case Nil
  from assms(3) obtain i where "map_of d ''id'' = Some i" "py_eq i task_id"
    by (auto simp: id_is_iff split: option.splits)
  with assms(4) show ?case by (simp add: update_conv')
next
  case (Cons t pre)
  from Cons.prems obtain i where i: "getitem t ''id'' = Inr i"
    by (auto simp: has_key_iff)
  with Cons.prems have "\<not> py_eq i task_id" by (simp add: id_is_iff)
  with i Cons show ?case by simp
qed

lemma first_match_split:
  assumes "list_ex P ts"
  shows "\<exists>pre t post. ts = pre @ t # post \<and> list_all (\<lambda>x. \<not> P x) pre \<and> P t"
proof -
  from assms have "\<exists>x\<in>set ts. P x" by (simp add: list_ex_iff)
  from split_list_first_prop [OF this] show ?thesis
    by (auto simp: list_all_iff)
qed

text \<open>
  Claim C3, as amended. In a collection whose records all have an id and a \<open>done\<close> field, and
  for an id that some record has, two toggles in a row both return and change only the first
  record with that id. Of that record every field but \<open>done\<close> and \<open>completed_at\<close> reads as
  before; \<open>done\<close> is the truth value of the original \<open>done\<close>; \<open>completed_at\<close> is null when the
  record was not done, and otherwise is the time of the second toggle, not the original
  completion time.
\<close>

theorem toggle_twice:
  assumes fields: "list_all (\<lambda>t. has_key ''id'' t \<and> has_key ''done'' t) (session_tasks s)"
    and present: "list_ex (id_is task_id) (session_tasks s)"
  shows "\<exists>s1 s2 pre d dv post d2.
      toggle_task_completion now1 w1 task_id s = Inr s1
    \<and> toggle_task_completion now2 w2 task_id s1 = Inr s2
    \<and> session_tasks s = pre @ JObj d # post
    \<and> list_all (\<lambda>t. \<not> id_is task_id t) pre
    \<and> id_is task_id (JObj d)
    \<and> map_of d ''done'' = Some dv
    \<and> session_tasks s2 = pre @ JObj d2 # post
    \<and> map_of d2 = (map_of d)(''done'' \<mapsto> JBool (truthy dv),
          ''completed_at'' \<mapsto> (if truthy dv then JStr (isoformat (now2 0)) else JNull))"
proof -
  from first_match_split [OF present] obtain pre t post where
    split: "session_tasks s = pre @ t # post" and pre: "list_all (\<lambda>x. \<not> id_is task_id x) pre"
    and t: "id_is task_id t"
    by blast
  from fields split have ids: "list_all (has_key ''id'') pre" and "has_key ''done'' t"
    by (simp_all add: list_all_iff)
  then obtain d dv where d: "t = JObj d" and dv: "map_of d ''done'' = Some dv"
    by (auto simp: has_key_iff getitem_eq_Inr)
  let ?d1 = "AList.update ''completed_at'' (if \<not> truthy dv then JStr (isoformat (now1 0)) else JNull)
               (AList.update ''done'' (JBool (\<not> truthy dv)) d)"
  let ?d2 = "AList.update ''completed_at'' (if truthy dv then JStr (isoformat (now2 0)) else JNull)
               (AList.update ''done'' (JBool (truthy dv)) ?d1)"
  have one: "toggle_loop now1 task_id (session_tasks s) = Inr (pre @ JObj ?d1 # post)"
    using toggle_loop_match [OF ids pre, of d dv now1 post] t d dv split by simp
  have id1: "id_is task_id (JObj ?d1)"
    using t d by (simp add: id_is_iff update_conv')
  have dv1: "map_of ?d1 ''done'' = Some (JBool (\<not> truthy dv))"
    by (simp add: update_conv')
  have two: "toggle_loop now2 task_id (pre @ JObj ?d1 # post) = Inr (pre @ JObj ?d2 # post)"
    using toggle_loop_match [OF ids pre id1 dv1, of now2 post] by simp
  have m: "map_of ?d2 = (map_of d)(''done'' \<mapsto> JBool (truthy dv),
          ''completed_at'' \<mapsto> (if truthy dv then JStr (isoformat (now2 0)) else JNull))"
    by (rule ext) (simp add: update_conv')
  let ?s1 = "persist w1 (pre @ JObj ?d1 # post) s"
  let ?s2 = "persist w2 (pre @ JObj ?d2 # post) ?s1"
  have "toggle_task_completion now1 w1 task_id s = Inr ?s1"
    using one by (simp add: toggle_task_completion_def)
  moreover have "toggle_task_completion now2 w2 task_id ?s1 = Inr ?s2"
    using two by (simp add: toggle_task_completion_def)
  moreover have "session_tasks ?s2 = pre @ JObj ?d2 # post" by simp
  ultimately show ?thesis
    using split d pre t dv m by blast
qed

text \<open>An instance: the first record of the pantry, which is not done, toggled at noon and again in the evening.\<close>

theorem toggle_twice_witness:
  "list_all (\<lambda>t. has_key ''id'' t \<and> has_key ''done'' t) (session_tasks pantry)
   \<and> list_ex (id_is (JNum 1)) (session_tasks pantry)
   \<and> (\<exists>s1 s2 pre d dv post d2.
      toggle_task_completion noon WriteOk (JNum 1) pantry = Inr s1
    \<and> toggle_task_completion evening WriteOk (JNum 1) s1 = Inr s2
    \<and> session_tasks pantry = pre @ JObj d # post
    \<and> list_all (\<lambda>t. \<not> id_is (JNum 1) t) pre
    \<and> id_is (JNum 1) (JObj d)
    \<and> map_of d ''done'' = Some dv
    \<and> session_tasks s2 = pre @ JObj d2 # post
    \<and> map_of d2 = (map_of d)(''done'' \<mapsto> JBool (truthy dv),
          ''completed_at'' \<mapsto> (if truthy dv then JStr (isoformat (evening 0)) else JNull)))"
proof -
  have a: "list_all (\<lambda>t. has_key ''id'' t \<and> has_key ''done'' t) (session_tasks pantry)"
    by (simp add: more_defs example_defs field_defs)
  have b: "list_ex (id_is (JNum 1)) (session_tasks pantry)"
    by (simp add: more_defs example_defs field_defs)
  from toggle_twice [OF a b, of noon WriteOk evening WriteOk] a b
  show ?thesis by blast
qed

text \<open>The claim as the specification states it fails on a completed record: the bread was completed on 3 January; after two toggles it is completed again, but at the time of the second toggle.\<close>

theorem toggle_twice_counterexample:
  "toggle_task_completion noon WriteOk (JNum 2) pantry = Inr pantry_once
   \<and> toggle_task_completion evening WriteOk (JNum 2) pantry_once = Inr pantry_twice
   \<and> getitem (session_tasks pantry ! 1) ''completed_at'' = Inr (JStr ''2024-01-03T08:30:00'')
   \<and> getitem (session_tasks pantry_twice ! 1) ''completed_at'' = Inr (JStr ''2024-01-05T19:00:00'')"
  by (simp add: more_defs example_defs toggle_task_completion_def persist_def save_tasks_def)

section \<open>The back-fill of one object\<close>

lemma fill_missing_obj:
  "fill_missing k v (JObj d) =
     Inr (JObj (if map_of d k = None then AList.update k v d else d))"
  by (simp add: fill_missing_def)

lemma fill_from_clock_obj:
  "fill_from_clock k f now n (JObj d) =
     Inr (if map_of d k = None then (JObj (AList.update k (f (now n)) d), Suc n) else (JObj d, n))"
  by (simp add: fill_from_clock_def)

lemma map_of_fill:
  "map_of (if map_of d k = None then AList.update k v d else d) k' =
     (if k' = k \<and> map_of d k = None then Some v else map_of d k')"
  by (simp add: update_conv')

lemma load_one_obj:
  "\<exists>d' n'. load_one now n (JObj d) = Inr (JObj d', n') \<and> backfilled now (JObj d) (JObj d')"
proof -
  define d1 where "d1 = (if map_of d ''id'' = None
    then AList.update ''id'' (JNum (timestamp (now n))) d else d)"
  define n1 where "n1 = (if map_of d ''id'' = None then Suc n else n)"
  define d2 where "d2 = (if map_of d1 ''priority'' = None
    then AList.update ''priority'' (JStr ''Medium'') d1 else d1)"
  define d3 where "d3 = (if map_of d2 ''created_at'' = None
    then AList.update ''created_at'' (JStr (isoformat (now n1))) d2 else d2)"
  define n3 where "n3 = (if map_of d2 ''created_at'' = None then Suc n1 else n1)"
  define d4 where "d4 = (if map_of d3 ''completed_at'' = None
    then AList.update ''completed_at'' JNull d3 else d3)"
  have 1: "fill_from_clock ''id'' (\<lambda>d. JNum (timestamp d)) now n (JObj d) = Inr (JObj d1, n1)"
    unfolding fill_from_clock_obj d1_def n1_def by simp
  have 2: "fill_missing ''priority'' (JStr ''Medium'') (JObj d1) = Inr (JObj d2)"
    unfolding fill_missing_obj d2_def by simp
  have 3: "fill_from_clock ''created_at'' (\<lambda>d. JStr (isoformat d)) now n1 (JObj d2) =
      Inr (JObj d3, n3)"
    unfolding fill_from_clock_obj d3_def n3_def by simp
  have 4: "fill_missing ''completed_at'' JNull (JObj d3) = Inr (JObj d4)"
    unfolding fill_missing_obj d4_def by simp
  have run: "load_one now n (JObj d) = Inr (JObj d4, n3)"
    unfolding load_one_def by (simp add: 1 2 3 4)
  have m1: "map_of d1 k = (if k = ''id'' \<and> map_of d ''id'' = None
      then Some (JNum (timestamp (now n))) else map_of d k)" for k
    unfolding d1_def by (rule map_of_fill)
  have m2: "map_of d2 k = (if k = ''priority'' \<and> map_of d1 ''priority'' = None
      then Some (JStr ''Medium'') else map_of d1 k)" for k
    unfolding d2_def by (rule map_of_fill)
  have m3: "map_of d3 k = (if k = ''created_at'' \<and> map_of d2 ''created_at'' = None
      then Some (JStr (isoformat (now n1))) else map_of d2 k)" for k
    unfolding d3_def by (rule map_of_fill)
  have m4: "map_of d4 k = (if k = ''completed_at'' \<and> map_of d3 ''completed_at'' = None
      then Some JNull else map_of d3 k)" for k
    unfolding d4_def by (rule map_of_fill)
  have keep: "map_of d4 k = Some v" if "map_of d k = Some v" for k v
  proof -
    from that have "map_of d1 k = Some v" by (auto simp: m1)
    then have "map_of d2 k = Some v" by (auto simp: m2)
    then have "map_of d3 k = Some v" by (auto simp: m3)
    then show ?thesis by (auto simp: m4)
  qed
  have none: "map_of d4 k = None"
    if "k \<notin> {''id'', ''priority'', ''created_at'', ''completed_at''}" "map_of d k = None" for k
  proof -
    from that have "map_of d1 k = None" by (simp add: m1)
    with that(1) have "map_of d2 k = None" by (simp add: m2)
    with that(1) have "map_of d3 k = None" by (simp add: m3)
    with that(1) show ?thesis by (simp add: m4)
  qed
  have id: "map_of d4 ''id'' = Some (JNum (timestamp (now n)))" if "map_of d ''id'' = None"
  proof -
    from that have "map_of d1 ''id'' = Some (JNum (timestamp (now n)))" by (simp add: m1)
    then have "map_of d2 ''id'' = Some (JNum (timestamp (now n)))" by (simp add: m2)
    then have "map_of d3 ''id'' = Some (JNum (timestamp (now n)))" by (simp add: m3)
    then show ?thesis by (simp add: m4)
  qed
  have pr: "map_of d4 ''priority'' = Some (JStr ''Medium'')" if "map_of d ''priority'' = None"
  proof -
    from that have "map_of d1 ''priority'' = None" by (simp add: m1)
    then have "map_of d2 ''priority'' = Some (JStr ''Medium'')" by (simp add: m2)
    then have "map_of d3 ''priority'' = Some (JStr ''Medium'')" by (simp add: m3)
    then show ?thesis by (simp add: m4)
  qed
  have cr: "map_of d4 ''created_at'' = Some (JStr (isoformat (now n1)))"
    if "map_of d ''created_at'' = None"
  proof -
    from that have "map_of d1 ''created_at'' = None" by (simp add: m1)
    then have "map_of d2 ''created_at'' = None" by (simp add: m2)
    then have "map_of d3 ''created_at'' = Some (JStr (isoformat (now n1)))" by (simp add: m3)
    then show ?thesis by (simp add: m4)
  qed
  have co: "map_of d4 ''completed_at'' = Some JNull" if "map_of d ''completed_at'' = None"
  proof -
    from that have "map_of d1 ''completed_at'' = None" by (simp add: m1)
    then have "map_of d2 ''completed_at'' = None" by (simp add: m2)
    then have "map_of d3 ''completed_at'' = None" by (simp add: m3)
    then show ?thesis by (simp add: m4)
  qed
  have "backfilled now (JObj d) (JObj d4)"
    unfolding backfilled_def
  proof (rule exI [of _ d], rule exI [of _ d4], intro conjI impI allI)
    show "\<exists>m. map_of d4 ''id'' = Some (JNum (timestamp (now m)))" if "map_of d ''id'' = None"
      using id [OF that] by blast
    show "\<exists>m. map_of d4 ''created_at'' = Some (JStr (isoformat (now m)))"
      if "map_of d ''created_at'' = None"
      using cr [OF that] by blast
  qed (simp_all add: keep none pr co)
  with run show ?thesis by blast
qed

lemma load_loop_objs:
  "list_all is_obj xs \<Longrightarrow>
     \<exists>ys. load_loop now n xs = Inr ys \<and> list_all2 (backfilled now) xs ys"
proof (induction xs arbitrary: n)
  case Nil
  show ?case by simp
next
  case (Cons x xs)
  from Cons.prems obtain d where d: "x = JObj d" by (cases x) simp_all
  from load_one_obj [of now n d] obtain d' n' where
    one: "load_one now n x = Inr (JObj d', n')" and b: "backfilled now x (JObj d')"
    using d by blast
  from Cons obtain ys where "load_loop now n' xs = Inr ys" "list_all2 (backfilled now) xs ys"
    by auto
  with one b show ?case by simp
qed

lemma load_tasks_objs:
  assumes "list_all is_obj xs"
  shows "\<exists>ys. load_tasks now (Parsed (JArr xs)) = Inr (JArr ys) \<and> list_all2 (backfilled now) xs ys"
  using load_loop_objs [OF assms, of now 0] by (auto simp: load_tasks_def)

lemma backfilled_priority:
  assumes "backfilled now a b"
  shows "getitem b ''priority'' =
     (case getitem a ''priority'' of Inr p \<Rightarrow> Inr p | Inl e \<Rightarrow> Inr (JStr ''Medium''))"
  using assms unfolding backfilled_def
proof (elim exE conjE)
  fix d d'
  assume ab: "a = JObj d" "b = JObj d'"
    and keep: "\<forall>k v. map_of d k = Some v \<longrightarrow> map_of d' k = Some v"
    and fill: "map_of d ''priority'' = None \<longrightarrow> map_of d' ''priority'' = Some (JStr ''Medium'')"
  show ?thesis
  proof (cases "map_of d ''priority''")
    case None
    with fill ab show ?thesis by simp
  next
    case (Some p)
    with keep have "map_of d' ''priority'' = Some p" by blast
    with Some ab show ?thesis by simp
  qed
qed

section \<open>The completion invariant\<close>

lemma persist_consistent:
  "list_all consistent ts \<Longrightarrow> file_consistent (data_file s) \<Longrightarrow> state_consistent (persist w ts s)"
  by (cases w) (simp_all add: state_consistent_def persist_def save_tasks_def)

lemma perform_consistent:
  assumes "state_consistent s" and "imports_consistent a" and "perform a s = Inr s'"
  shows "state_consistent s'"
proof -
  from assms(1) have ts: "list_all consistent (session_tasks s)"
    and f: "file_consistent (data_file s)"
    by (simp_all add: state_consistent_def)
  show ?thesis
  proof (cases a)
    case (Add now w new_task priority)
    with assms(3) have s': "s' = add_task now w new_task priority s" by simp
    show ?thesis
    proof (cases "py_strip new_task = []")
      case True
      with s' assms(1) show ?thesis by (simp add: add_task_def)
    next
      case False
      from ts have "list_all consistent (session_tasks s @ [create_task now (py_strip new_task) priority])"
        by (simp add: create_task_consistent)
      from persist_consistent [OF this f] False s' show ?thesis by (simp add: add_task_def)
    qed
  next
    case (Toggle now w task_id)
    with assms(3) obtain ts' where run: "toggle_loop now task_id (session_tasks s) = Inr ts'"
      and s': "s' = persist w ts' s"
      by (auto simp: toggle_task_completion_def py_bind_eq_Inr)
    from list_all2_preserves [OF toggle_loop_shape [OF run] ts] toggled_consistent
    have "list_all consistent ts'" by blast
    from persist_consistent [OF this f] s' show ?thesis by simp
  next
    case (Edit w task_id new_text new_priority)
    with assms(3) obtain ts' where
      run: "edit_loop task_id new_text new_priority (session_tasks s) = Inr ts'"
      and s': "s' = persist w ts' s"
      by (auto simp: edit_task_def py_bind_eq_Inr)
    from list_all2_preserves [OF edit_loop_shape [OF run] ts] edited_consistent
    have "list_all consistent ts'" by blast
    from persist_consistent [OF this f] s' show ?thesis by simp
  next
    case (Delete w task_id)
    with assms(3) obtain ts' where run: "delete_filter task_id (session_tasks s) = Inr ts'"
      and s': "s' = persist w ts' s"
      by (auto simp: delete_task_def py_bind_eq_Inr)
    from delete_filter_result [OF run] ts have "list_all consistent ts'"
      by (simp add: list_all_iff)
    from persist_consistent [OF this f] s' show ?thesis by simp
  next
    case (ClearCompleted w)
    with assms(3) obtain ts' where run: "pending_filter (session_tasks s) = Inr ts'"
      and s': "s' = persist w ts' s"
      by (auto simp: clear_completed_def py_bind_eq_Inr)
    from pending_filter_result [OF run] ts have "list_all consistent ts'"
      by (simp add: list_all_iff)
    from persist_consistent [OF this f] s' show ?thesis by simp
  next
    case (ImportBatch w imported)
    with assms(3) obtain xs where xs: "py_iter imported = Inr xs"
      and s': "s' = persist w (session_tasks s @ xs) s"
      by (auto simp: import_tasks_def py_bind_eq_Inr)
    from assms(2) ImportBatch xs have "list_all consistent xs" by simp
    with ts have "list_all consistent (session_tasks s @ xs)" by simp
    from persist_consistent [OF this f] s' show ?thesis by simp
  qed
qed

lemma step_consistent:
  "state_consistent s \<Longrightarrow> imports_consistent a \<Longrightarrow> state_consistent (step a s)"
  by (cases "perform a s") (auto simp: step_def intro: perform_consistent)

lemma run_consistent:
  "state_consistent s \<Longrightarrow> list_all imports_consistent as \<Longrightarrow> state_consistent (run as s)"
  by (induction as arbitrary: s) (simp_all add: step_consistent)

subsection \<open>Loading keeps the invariant of the records in the file\<close>

lemma fill_missing_cases:
  assumes "fill_missing k v t = Inr t'"
  shows "t' = t \<or> (\<exists>d. t = JObj d \<and> map_of d k = None \<and> t' = JObj (AList.update k v d))"
  using assms by (cases t) (auto simp: fill_missing_def split: if_splits)

lemma fill_from_clock_cases:
  assumes "fill_from_clock k f now n t = Inr (t', n')"
  shows "t' = t \<or> (\<exists>d. t = JObj d \<and> map_of d k = None \<and> t' = JObj (AList.update k (f (now n)) d))"
  using assms by (cases t) (auto simp: fill_from_clock_def split: if_splits)

lemma consistent_fill:
  assumes "map_of d k = None" and "k \<noteq> ''done''" and "k = ''completed_at'' \<longrightarrow> v = JNull"
  shows "consistent (JObj (AList.update k v d)) = consistent (JObj d)"
  using assms by (auto simp: consistent_obj update_conv')

lemma load_one_consistent:
  assumes "load_one now n t = Inr (t', n')"
  shows "consistent t' = consistent t"
proof -
  from assms obtain t1 n1 t2 t3 where
    1: "fill_from_clock ''id'' (\<lambda>d. JNum (timestamp d)) now n t = Inr (t1, n1)" and
    2: "fill_missing ''priority'' (JStr ''Medium'') t1 = Inr t2" and
    3: "fill_from_clock ''created_at'' (\<lambda>d. JStr (isoformat d)) now n1 t2 = Inr (t3, n')" and
    4: "fill_missing ''completed_at'' JNull t3 = Inr t'"
    by (auto simp: load_one_def py_bind_eq_Inr)
  from fill_from_clock_cases [OF 1] have "consistent t1 = consistent t"
    by (auto simp: consistent_fill)
  moreover from fill_missing_cases [OF 2] have "consistent t2 = consistent t1"
    by (auto simp: consistent_fill)
  moreover from fill_from_clock_cases [OF 3] have "consistent t3 = consistent t2"
    by (auto simp: consistent_fill)
  moreover from fill_missing_cases [OF 4] have "consistent t' = consistent t3"
    by (auto simp: consistent_fill)
  ultimately show ?thesis by simp
qed

lemma load_loop_consistent:
  "load_loop now n xs = Inr ys \<Longrightarrow> list_all consistent ys = list_all consistent xs"
proof (induction xs arbitrary: n ys)
  case Nil
  then show ?case by simp
next
  case (Cons x xs)
  from Cons.prems obtain x' n' rest where "load_one now n x = Inr (x', n')"
    "load_loop now n' xs = Inr rest" "ys = x' # rest"
    by (auto simp: py_bind_eq_Inr)
  with Cons.IH load_one_consistent show ?case by auto
qed

lemma load_loop_pointwise:
  "load_loop now n xs = Inr ys \<Longrightarrow> list_all2 (\<lambda>a b. consistent b = consistent a) xs ys"
proof (induction xs arbitrary: n ys)
  case Nil
  then show ?case by simp
next
  case (Cons x xs)
  from Cons.prems obtain x' n' rest where one: "load_one now n x = Inr (x', n')"
    and more: "load_loop now n' xs = Inr rest" and ys: "ys = x' # rest"
    by (auto simp: py_bind_eq_Inr)
  from load_one_consistent [OF one] Cons.IH [OF more] ys show ?case by simp
qed

lemma load_tasks_pointwise:
  assumes "load_tasks now (Parsed (JArr xs)) = Inr (JArr zs)"
  shows "list_all2 (\<lambda>a b. consistent b = consistent a) xs zs"
proof -
  from assms have "load_loop now 0 xs = Inr zs"
    by (auto simp: load_tasks_def py_bind_eq_Inr)
  then show ?thesis by (rule load_loop_pointwise)
qed

lemma load_tasks_consistent_iff:
  assumes "load_tasks now f = Inr (JArr ys)"
  shows "list_all consistent ys = file_consistent f"
proof (cases f)
  case (Parsed j)
  show ?thesis
  proof (cases j)
    case (JArr xs)
    with Parsed assms have "load_loop now 0 xs = Inr ys"
      by (auto simp: load_tasks_def py_bind_eq_Inr)
    from load_loop_consistent [OF this] Parsed JArr show ?thesis by simp
  qed (use Parsed assms in \<open>auto simp: load_tasks_def py_bind_eq_Inr\<close>)
qed (use assms in \<open>auto simp: load_tasks_def\<close>)

lemma load_tasks_returns:
  assumes "list_all is_obj xs"
  shows "\<exists>zs. load_tasks now (Parsed (JArr xs)) = Inr (JArr zs)"
  using load_tasks_objs [OF assms, of now] by blast

text \<open>
  Claim C1, as amended. When every record of the session and of the file satisfies the
  invariant (\<open>done == true\<close> exactly when \<open>completed_at\<close> is present and not null), it still
  does after any sequence of add, toggle, edit, delete, clear-completed and import actions in
  which every import brings only records that satisfy it. And \<open>load_tasks\<close> neither
  establishes nor breaks the invariant: the list it returns satisfies the invariant exactly
  when the records in the file do; from an array it returns one record for each stored
  record, which satisfies the invariant exactly when the stored record does; and it does
  return when the array holds objects.
\<close>

theorem invariant_preserved:
  "(list_all consistent (session_tasks s) \<and> file_consistent (data_file s)
      \<and> list_all imports_consistent as
    \<longrightarrow> list_all consistent (session_tasks (run as s)) \<and> file_consistent (data_file (run as s)))
   \<and> (load_tasks now f = Inr (JArr ys) \<longrightarrow> list_all consistent ys = file_consistent f)
   \<and> (load_tasks now (Parsed (JArr xs)) = Inr (JArr zs) \<longrightarrow>
        list_all2 (\<lambda>a b. consistent b = consistent a) xs zs)
   \<and> (list_all is_obj xs \<longrightarrow> (\<exists>zs. load_tasks now (Parsed (JArr xs)) = Inr (JArr zs)))"
proof (intro conjI impI)
  assume "list_all consistent (session_tasks s) \<and> file_consistent (data_file s)
      \<and> list_all imports_consistent as"
  then have "state_consistent s" and "list_all imports_consistent as"
    by (simp_all add: state_consistent_def)
  then have "state_consistent (run as s)"
    by (rule run_consistent)
  then show "list_all consistent (session_tasks (run as s))"
    and "file_consistent (data_file (run as s))"
    by (simp_all add: state_consistent_def)
next
  assume "load_tasks now f = Inr (JArr ys)"
  then show "list_all consistent ys = file_consistent f"
    by (rule load_tasks_consistent_iff)
next
  assume "load_tasks now (Parsed (JArr xs)) = Inr (JArr zs)"
  then show "list_all2 (\<lambda>a b. consistent b = consistent a) xs zs"
    by (rule load_tasks_pointwise)
next
  assume "list_all is_obj xs"
  then show "\<exists>zs. load_tasks now (Parsed (JArr xs)) = Inr (JArr zs)"
    by (rule load_tasks_returns)
qed

text \<open>An instance: a day of actions on the pantry, and the load of a file whose only record has
  no \<open>completed_at\<close> and is not done.\<close>

theorem invariant_preserved_witness:
  "list_all consistent (session_tasks pantry) \<and> file_consistent (data_file pantry)
   \<and> list_all imports_consistent busy_day
   \<and> list_all consistent (session_tasks (run busy_day pantry))
   \<and> file_consistent (data_file (run busy_day pantry))
   \<and> load_tasks noon (Parsed (JArr [legacy])) = Inr (JArr [legacy_loaded])
   \<and> list_all consistent [legacy_loaded] = file_consistent (Parsed (JArr [legacy]))
   \<and> list_all2 (\<lambda>a b. consistent b = consistent a) [legacy] [legacy_loaded]
   \<and> list_all is_obj [legacy]
   \<and> (\<exists>zs. load_tasks noon (Parsed (JArr [legacy])) = Inr (JArr zs))"
proof -
  have a: "list_all consistent (session_tasks pantry) \<and> file_consistent (data_file pantry)
      \<and> list_all imports_consistent busy_day"
    by (simp add: more_defs example_defs inv_defs)
  have d: "load_tasks noon (Parsed (JArr [legacy])) = Inr (JArr [legacy_loaded])"
    by (simp add: more_defs load_defs)
  have e: "list_all is_obj [legacy]"
    by (simp add: more_defs)
  note t = invariant_preserved [of pantry busy_day noon "Parsed (JArr [legacy])"
      "[legacy_loaded]" "[legacy]" "[legacy_loaded]"]
  note r = t [THEN conjunct1, THEN mp, OF a]
  note l1 = t [THEN conjunct2, THEN conjunct1, THEN mp, OF d]
  note l2 = t [THEN conjunct2, THEN conjunct2, THEN conjunct1, THEN mp, OF d]
  note l3 = t [THEN conjunct2, THEN conjunct2, THEN conjunct2, THEN mp, OF e]
  show ?thesis
    by (intro conjI a [THEN conjunct1] a [THEN conjunct2, THEN conjunct1]
        a [THEN conjunct2, THEN conjunct2] r [THEN conjunct1] r [THEN conjunct2] d l1 l2 e l3)
qed

text \<open>The claim as the specification states it fails for import and for load: importing a record that is done and has a null \<open>completed_at\<close> puts that record in the session, and loading a record that is done and has no \<open>completed_at\<close> returns it with \<open>completed_at\<close> null.\<close>

theorem invariant_preserved_counterexample:
  "list_all consistent (session_tasks empty_session)
   \<and> import_tasks WriteOk (JArr [unfinished]) empty_session =
       Inr \<lparr>session_tasks = [unfinished], data_file = Parsed (JArr [unfinished])\<rparr>
   \<and> \<not> list_all consistent [unfinished]
   \<and> load_tasks noon (Parsed (JArr [legacy_done])) =
       Inr (JArr [legacy_done_loaded])
   \<and> \<not> list_all consistent
        [legacy_done_loaded]"
  by (simp add: more_defs example_defs inv_defs load_defs import_tasks_def persist_def
      save_tasks_def)

section \<open>Unique ids\<close>

lemma unique_ids_same_ids:
  assumes "map (\<lambda>t. getitem t ''id'') ts' = map (\<lambda>t. getitem t ''id'') ts"
  shows "unique_ids ts' = unique_ids ts"
proof -
  define D where "D x y = (case x of Inr i \<Rightarrow> (case y of Inr j \<Rightarrow> \<not> py_eq i j | Inl e \<Rightarrow> False)
                             | Inl (e::py_error) \<Rightarrow> False)" for x y :: "py_error + json"
  have "ids_differ = (\<lambda>a b. D (getitem a ''id'') (getitem b ''id''))"
    by (intro ext) (simp add: ids_differ_def D_def)
  then have "unique_ids xs = sorted_wrt D (map (\<lambda>t. getitem t ''id'') xs)" for xs
    by (simp add: unique_ids_def sorted_wrt_map)
  with assms show ?thesis by simp
qed

lemma toggled_same_id: "toggled_from now a b \<Longrightarrow> getitem b ''id'' = getitem a ''id''"
  by (auto simp: toggled_from_def update_conv')

lemma edited_same_id: "edited_from nt np a b \<Longrightarrow> getitem b ''id'' = getitem a ''id''"
  by (auto simp: edited_from_def update_conv')

lemma unique_ids_filter: "unique_ids ts \<Longrightarrow> unique_ids (filter P ts)"
  by (simp add: unique_ids_def sorted_wrt_filter)

lemma unique_ids_append:
  "unique_ids (ts @ xs) \<longleftrightarrow>
     unique_ids ts \<and> unique_ids xs \<and> list_all (\<lambda>t. list_all (ids_differ t) xs) ts"
  by (auto simp: unique_ids_def sorted_wrt_append list_all_iff)

lemma perform_unique_ids:
  assumes "unique_ids (session_tasks s)" and "brings_fresh_ids a s" and "perform a s = Inr s'"
  shows "unique_ids (session_tasks s')"
proof (cases a)
  case (Add now w new_task priority)
  with assms(3) have s': "s' = add_task now w new_task priority s" by simp
  show ?thesis
  proof (cases "py_strip new_task = []")
    case True
    with s' assms(1) show ?thesis by (simp add: add_task_def)
  next
    case False
    from assms(1,2) Add
    have "unique_ids (session_tasks s @ [create_task now (py_strip new_task) priority])"
      by (simp add: unique_ids_append) (simp add: unique_ids_def)
    with False s' show ?thesis by (simp add: add_task_def)
  qed
next
  case (Toggle now w task_id)
  with assms(3) obtain ts' where run: "toggle_loop now task_id (session_tasks s) = Inr ts'"
    and s': "s' = persist w ts' s"
    by (auto simp: toggle_task_completion_def py_bind_eq_Inr)
  from list_all2_same_image [OF toggle_loop_shape [OF run], of "\<lambda>t. getitem t ''id''"]
    toggled_same_id
  have "map (\<lambda>t. getitem t ''id'') ts' = map (\<lambda>t. getitem t ''id'') (session_tasks s)"
    by blast
  from unique_ids_same_ids [OF this] assms(1) s' show ?thesis by simp
next
  case (Edit w task_id new_text new_priority)
  with assms(3) obtain ts' where
    run: "edit_loop task_id new_text new_priority (session_tasks s) = Inr ts'"
    and s': "s' = persist w ts' s"
    by (auto simp: edit_task_def py_bind_eq_Inr)
  from list_all2_same_image [OF edit_loop_shape [OF run], of "\<lambda>t. getitem t ''id''"]
    edited_same_id
  have "map (\<lambda>t. getitem t ''id'') ts' = map (\<lambda>t. getitem t ''id'') (session_tasks s)"
    by blast
  from unique_ids_same_ids [OF this] assms(1) s' show ?thesis by simp
next
  case (Delete w task_id)
  with assms(3) obtain ts' where run: "delete_filter task_id (session_tasks s) = Inr ts'"
    and s': "s' = persist w ts' s"
    by (auto simp: delete_task_def py_bind_eq_Inr)
  from delete_filter_result [OF run] assms(1) s' show ?thesis
    by (simp add: unique_ids_filter)
next
  case (ClearCompleted w)
  with assms(3) obtain ts' where run: "pending_filter (session_tasks s) = Inr ts'"
    and s': "s' = persist w ts' s"
    by (auto simp: clear_completed_def py_bind_eq_Inr)
  from pending_filter_result [OF run] assms(1) s' show ?thesis
    by (simp add: unique_ids_filter)
next
  case (ImportBatch w imported)
  with assms(3) obtain xs where xs: "py_iter imported = Inr xs"
    and s': "s' = persist w (session_tasks s @ xs) s"
    by (auto simp: import_tasks_def py_bind_eq_Inr)
  from assms(1,2) ImportBatch xs s' show ?thesis
    by (simp add: unique_ids_append)
qed

lemma step_unique_ids:
  "unique_ids (session_tasks s) \<Longrightarrow> brings_fresh_ids a s \<Longrightarrow> unique_ids (session_tasks (step a s))"
  by (cases "perform a s") (auto simp: step_def intro: perform_unique_ids)

text \<open>
  Claim C8, as amended. A collection whose records have pairwise different ids still has
  pairwise different ids after any sequence of add, toggle, edit, delete, clear-completed and
  import actions, provided that every action brings fresh ids: the clock gives each added task
  a timestamp that no record of the collection has as its id, and each import brings records
  whose ids differ from each other and from those of the collection.
\<close>

theorem ids_stay_unique:
  "unique_ids (session_tasks s) \<Longrightarrow> all_bring_fresh_ids as s \<Longrightarrow>
     unique_ids (session_tasks (run as s))"
  by (induction as arbitrary: s) (simp_all add: step_unique_ids)

text \<open>An instance: the same day of actions brings only fresh ids to the pantry.\<close>

theorem ids_stay_unique_witness:
  "unique_ids (session_tasks pantry) \<and> all_bring_fresh_ids busy_day pantry
   \<and> unique_ids (session_tasks (run busy_day pantry))"
proof -
  have a: "unique_ids (session_tasks pantry)"
    by (simp add: more_defs example_defs unique_ids_def ids_differ_def)
  have b: "all_bring_fresh_ids busy_day pantry"
    by (simp add: more_defs example_defs unique_ids_def ids_differ_def step_def
        add_task_def toggle_task_completion_def import_tasks_def edit_task_def delete_task_def
        clear_completed_def persist_def create_task_def py_strip_def is_space_def)
  from ids_stay_unique [OF a b] a b show ?thesis by simp
qed

text \<open>The claim as the specification states it fails for import: importing a record whose id is 1 into the pantry, which has a record with id 1, gives two records with equal ids.\<close>

theorem ids_stay_unique_counterexample:
  "unique_ids (session_tasks pantry)
   \<and> import_tasks WriteOk (JArr [milk_again]) pantry =
       Inr \<lparr>session_tasks = [milk, bread, tea, milk_again],
            data_file = Parsed (JArr [milk, bread, tea, milk_again])\<rparr>
   \<and> \<not> unique_ids [milk, bread, tea, milk_again]"
  by (simp add: more_defs example_defs unique_ids_def ids_differ_def import_tasks_def
      persist_def save_tasks_def)

section \<open>Loading\<close>

subsection \<open>What \<open>load_tasks\<close> returns\<close>

lemma py_bind_eq_Inl:
  "py_bind m f = Inl e \<longleftrightarrow> m = Inl e \<or> (\<exists>x. m = Inr x \<and> f x = Inl e)"
  by (cases m) simp_all

lemma py_in_error: "py_in k t = Inl e \<Longrightarrow> e = TypeError"
  by (cases t) simp_all

lemma setitem_error: "setitem t k v = Inl e \<Longrightarrow> e = TypeError"
  by (cases t) simp_all

lemma fill_missing_error: "fill_missing k v t = Inl e \<Longrightarrow> e = TypeError"
  by (auto simp: fill_missing_def py_bind_eq_Inl split: if_splits
      dest: py_in_error setitem_error)

lemma fill_from_clock_error: "fill_from_clock k f now n t = Inl e \<Longrightarrow> e = TypeError"
  by (auto simp: fill_from_clock_def py_bind_eq_Inl split: if_splits
      dest: py_in_error setitem_error)

lemma load_one_error: "load_one now n t = Inl e \<Longrightarrow> e = TypeError"
  by (auto simp: load_one_def py_bind_eq_Inl
      dest: fill_missing_error fill_from_clock_error)

lemma load_one_scalar: "is_scalar t \<Longrightarrow> load_one now n t = Inl TypeError"
  by (cases t) (simp_all add: load_one_def fill_from_clock_def)

lemma load_loop_error: "load_loop now n xs = Inl e \<Longrightarrow> e = TypeError"
proof (induction xs arbitrary: n)
  case Nil
  then show ?case by simp
next
  case (Cons x xs)
  show ?case
  proof (cases "load_one now n x")
    case (Inl e')
    with Cons.prems have "e' = e" by simp
    with Inl load_one_error show ?thesis by blast
  next
    case (Inr r)
    obtain x' n' where r: "r = (x', n')" by (cases r)
    with Inr Cons.prems have "load_loop now n' xs = Inl e"
      by (cases "load_loop now n' xs") simp_all
    then show ?thesis by (rule Cons.IH)
  qed
qed

lemma load_loop_scalar: "list_ex is_scalar xs \<Longrightarrow> load_loop now n xs = Inl TypeError"
proof (induction xs arbitrary: n)
  case Nil
  then show ?case by simp
next
  case (Cons x xs)
  show ?case
  proof (cases "load_one now n x")
    case (Inl e)
    with load_one_error have "load_one now n x = Inl TypeError" by blast
    then show ?thesis by simp
  next
    case (Inr r)
    obtain x' n' where r: "r = (x', n')" by (cases r)
    from Inr have "\<not> is_scalar x" using load_one_scalar [of x now n] by auto
    with Cons.prems have "list_ex is_scalar xs" by simp
    then have "load_loop now n' xs = Inl TypeError" by (rule Cons.IH)
    with Inr r show ?thesis by simp
  qed
qed

lemma load_tasks_error:
  assumes "load_tasks now (Parsed j) = Inl e"
  shows "e = TypeError"
proof (cases j)
  case (JArr xs)
  with assms have "load_loop now 0 xs = Inl e"
    by (auto simp: load_tasks_def py_bind_eq_Inl)
  then show ?thesis by (rule load_loop_error)
next
  case (JObj d)
  with assms have "load_loop now 0 (map (\<lambda>kv. JStr (fst kv)) d) = Inl e"
    by (auto simp: load_tasks_def py_bind_eq_Inl)
  then show ?thesis by (rule load_loop_error)
next
  case (JStr str)
  with assms have "load_loop now 0 (map (\<lambda>c. JStr [c]) str) = Inl e"
    by (auto simp: load_tasks_def py_bind_eq_Inl)
  then show ?thesis by (rule load_loop_error)
qed (use assms in \<open>simp_all add: load_tasks_def\<close>)

lemma load_tasks_scalar: "is_scalar j \<Longrightarrow> load_tasks now (Parsed j) = Inl TypeError"
  by (cases j) (simp_all add: load_tasks_def)

lemma load_tasks_scalar_element:
  "list_ex is_scalar xs \<Longrightarrow> load_tasks now (Parsed (JArr xs)) = Inl TypeError"
  by (simp add: load_tasks_def load_loop_scalar)

text \<open>
  Claim C5, as amended. \<open>load_tasks\<close> returns the empty list when there is no file (or the
  file is gone when it is opened) and when the file is text that is not JSON. When the
  content is a JSON array of objects it returns these records, each with the fields it had
  and with \<open>id\<close>, \<open>priority\<close>, \<open>created_at\<close> and \<open>completed_at\<close> back-filled where they were
  missing. In the other cases it can raise: \<^verbatim>\<open>OSError\<close> when the file exists but cannot be
  opened, \<^verbatim>\<open>UnicodeDecodeError\<close> when its bytes are not UTF-8, and, for content that parses,
  \<^verbatim>\<open>TypeError\<close> and no other exception, which it always does when the content is null, a
  boolean or a number, or an array holding one of these.
\<close>

theorem load_tasks_cases:
  "load_tasks now NoFile = Inr (JArr [])
   \<and> load_tasks now Vanished = Inr (JArr [])
   \<and> load_tasks now BadJson = Inr (JArr [])
   \<and> load_tasks now Unreadable = Inl OSError
   \<and> load_tasks now NotUtf8 = Inl UnicodeDecodeError
   \<and> (list_all is_obj xs \<longrightarrow>
        (\<exists>ys. load_tasks now (Parsed (JArr xs)) = Inr (JArr ys)
           \<and> list_all2 (backfilled now) xs ys))
   \<and> (is_scalar j \<longrightarrow> load_tasks now (Parsed j) = Inl TypeError)
   \<and> (list_ex is_scalar bad \<longrightarrow> load_tasks now (Parsed (JArr bad)) = Inl TypeError)
   \<and> (load_tasks now (Parsed k) = Inl e \<longrightarrow> e = TypeError)"
proof (intro conjI impI)
  assume "list_all is_obj xs"
  then show "\<exists>ys. load_tasks now (Parsed (JArr xs)) = Inr (JArr ys)
      \<and> list_all2 (backfilled now) xs ys"
    by (rule load_tasks_objs)
next
  assume "is_scalar j"
  then show "load_tasks now (Parsed j) = Inl TypeError" by (rule load_tasks_scalar)
next
  assume "list_ex is_scalar bad"
  then show "load_tasks now (Parsed (JArr bad)) = Inl TypeError"
    by (rule load_tasks_scalar_element)
next
  assume "load_tasks now (Parsed k) = Inl e"
  then show "e = TypeError" by (rule load_tasks_error)
qed (simp_all add: load_tasks_def)

text \<open>An instance: a file with a record that has only a text and a \<open>done\<close> field, and a
  complete record; a file holding the number 5; a file whose array holds a record and the
  number 5; and a file holding an object.\<close>

theorem load_tasks_cases_witness:
  "list_all is_obj [legacy, milk]
   \<and> (\<exists>ys. load_tasks noon (Parsed (JArr [legacy, milk])) = Inr (JArr ys)
           \<and> list_all2 (backfilled noon) [legacy, milk] ys)
   \<and> load_tasks noon (Parsed (JArr [legacy, milk])) = Inr (JArr [legacy_loaded, milk])
   \<and> is_scalar (JNum 5)
   \<and> load_tasks noon (Parsed (JNum 5)) = Inl TypeError
   \<and> list_ex is_scalar [milk, JNum 5]
   \<and> load_tasks noon (Parsed (JArr [milk, JNum 5])) = Inl TypeError
   \<and> load_tasks noon (Parsed (JObj [(''tasks'', JArr [milk])])) = Inl TypeError
   \<and> TypeError = TypeError"
proof -
  have a: "list_all is_obj [legacy, milk]"
    by (simp add: more_defs example_defs)
  have b: "load_tasks noon (Parsed (JArr [legacy, milk])) = Inr (JArr [legacy_loaded, milk])"
    by (simp add: more_defs example_defs load_defs)
  have c: "is_scalar (JNum 5)" by simp
  have d: "list_ex is_scalar [milk, JNum 5]" by simp
  have e: "load_tasks noon (Parsed (JObj [(''tasks'', JArr [milk])])) = Inl TypeError"
    by (simp add: load_defs)
  note t = load_tasks_cases [of noon "[legacy, milk]" "JNum 5" "[milk, JNum 5]"
      "JObj [(''tasks'', JArr [milk])]" TypeError]
  note r = t [THEN conjunct2, THEN conjunct2, THEN conjunct2, THEN conjunct2, THEN conjunct2]
  note r1 = r [THEN conjunct1, THEN mp, OF a]
  note r2 = r [THEN conjunct2, THEN conjunct1, THEN mp, OF c]
  note r3 = r [THEN conjunct2, THEN conjunct2, THEN conjunct1, THEN mp, OF d]
  note r4 = r [THEN conjunct2, THEN conjunct2, THEN conjunct2, THEN mp, OF e]
  show ?thesis by (intro conjI a r1 b c r2 d r3 e r4)
qed

text \<open>The claim as the specification states it fails for content that parses but is not an
  array of objects: \<open>load_tasks\<close> raises \<^verbatim>\<open>TypeError\<close> on an array holding a number, on an
  object and on null. The application writes such a file itself when a user imports
  \<^verbatim>\<open>[5]\<close>. It also raises, instead of returning the empty list, on a file whose bytes are
  not UTF-8.\<close>

theorem load_tasks_cases_counterexample:
  "load_tasks noon (Parsed (JArr [milk, JNum 5])) = Inl TypeError
   \<and> load_tasks noon (Parsed (JObj [(''tasks'', JArr [milk])])) = Inl TypeError
   \<and> load_tasks noon (Parsed JNull) = Inl TypeError
   \<and> import_tasks WriteOk (JArr [JNum 5]) empty_session =
       Inr \<lparr>session_tasks = [JNum 5], data_file = Parsed (JArr [JNum 5])\<rparr>
   \<and> load_tasks noon NotUtf8 = Inl UnicodeDecodeError"
  by (simp add: example_defs load_defs import_tasks_def persist_def save_tasks_def)

subsection \<open>The priority of loaded records\<close>

text \<open>
  Claim C4, as amended. When the file holds an array of objects, \<open>load_tasks\<close> returns one
  record for each; a record that had no \<open>priority\<close> field is returned with priority
  \<open>"Medium"\<close>, and a record that had one is returned with the value it had, whether or not
  that value is one of High, Medium and Low.
\<close>

theorem load_priority_default:
  assumes "list_all is_obj xs"
  shows "\<exists>ys. load_tasks now (Parsed (JArr xs)) = Inr (JArr ys)
     \<and> list_all2 (\<lambda>a b. getitem b ''priority'' =
          (case getitem a ''priority'' of Inr p \<Rightarrow> Inr p | Inl e \<Rightarrow> Inr (JStr ''Medium''))) xs ys"
proof -
  from load_tasks_objs [OF assms, of now] obtain ys where
    ys: "load_tasks now (Parsed (JArr xs)) = Inr (JArr ys)" "list_all2 (backfilled now) xs ys"
    by blast
  from ys(2) have "list_all2 (\<lambda>a b. getitem b ''priority'' =
          (case getitem a ''priority'' of Inr p \<Rightarrow> Inr p | Inl e \<Rightarrow> Inr (JStr ''Medium''))) xs ys"
    by (rule list_all2_mono) (rule backfilled_priority)
  with ys(1) show ?thesis by blast
qed

text \<open>An instance: a record without priority, one with the priority \<open>"Urgent"\<close> and one with \<open>"High"\<close>.\<close>

theorem load_priority_default_witness:
  "list_all is_obj [no_priority, urgent, milk]
   \<and> (\<exists>ys. load_tasks noon (Parsed (JArr [no_priority, urgent, milk])) = Inr (JArr ys)
     \<and> list_all2 (\<lambda>a b. getitem b ''priority'' =
          (case getitem a ''priority'' of Inr p \<Rightarrow> Inr p | Inl e \<Rightarrow> Inr (JStr ''Medium'')))
          [no_priority, urgent, milk] ys)
   \<and> load_tasks noon (Parsed (JArr [no_priority, urgent, milk])) =
       Inr (JArr [no_priority_loaded, urgent, milk])"
proof -
  have a: "list_all is_obj [no_priority, urgent, milk]"
    by (simp add: load_example_defs example_defs)
  have b: "load_tasks noon (Parsed (JArr [no_priority, urgent, milk])) =
       Inr (JArr [no_priority_loaded, urgent, milk])"
    by (simp add: load_example_defs example_defs load_defs)
  have c: "\<exists>ys. load_tasks noon (Parsed (JArr [no_priority, urgent, milk])) = Inr (JArr ys)
     \<and> list_all2 (\<lambda>a b. getitem b ''priority'' =
          (case getitem a ''priority'' of Inr p \<Rightarrow> Inr p | Inl e \<Rightarrow> Inr (JStr ''Medium'')))
          [no_priority, urgent, milk] ys"
    by (rule load_priority_default [OF a])
  show ?thesis by (intro conjI a b c)
qed

text \<open>The claim as the specification states it fails for an unrecognized priority: a record with priority \<open>"Urgent"\<close> is returned as it is.\<close>

theorem load_priority_default_counterexample:
  "load_tasks noon (Parsed (JArr [urgent])) = Inr (JArr [urgent])
   \<and> getitem urgent ''priority'' = Inr (JStr ''Urgent'')
   \<and> ''Urgent'' \<notin> {''High'', ''Medium'', ''Low''}"
  by (simp add: load_example_defs example_defs load_defs)

subsection \<open>Saving, then loading\<close>

lemma has_key_obj: "has_key k (JObj d) \<longleftrightarrow> (\<exists>v. map_of d k = Some v)"
  by (auto simp: has_key_iff split: option.splits)

lemma has_key_is_obj: "has_key k t \<Longrightarrow> \<exists>d. t = JObj d"
  by (auto simp: has_key_iff getitem_eq_Inr)

lemma load_one_complete:
  assumes "carries_all_fields t"
  shows "load_one now n t = Inr (t, n)"
proof -
  from assms have k: "has_key ''id'' t" "has_key ''priority'' t" "has_key ''created_at'' t"
    "has_key ''completed_at'' t"
    by (simp_all add: carries_all_fields_def)
  from has_key_is_obj [OF k(1)] obtain d where d: "t = JObj d" by blast
  from k(1) obtain i where i: "map_of d ''id'' = Some i"
    unfolding d has_key_obj by blast
  from k(2) obtain p where p: "map_of d ''priority'' = Some p"
    unfolding d has_key_obj by blast
  from k(3) obtain c where c: "map_of d ''created_at'' = Some c"
    unfolding d has_key_obj by blast
  from k(4) obtain ca where ca: "map_of d ''completed_at'' = Some ca"
    unfolding d has_key_obj by blast
  have 1: "fill_from_clock ''id'' (\<lambda>d. JNum (timestamp d)) now n t = Inr (t, n)"
    using d i by (simp add: fill_from_clock_obj)
  have 2: "fill_missing ''priority'' (JStr ''Medium'') t = Inr t"
    using d p by (simp add: fill_missing_obj)
  have 3: "fill_from_clock ''created_at'' (\<lambda>d. JStr (isoformat d)) now n t = Inr (t, n)"
    using d c by (simp add: fill_from_clock_obj)
  have 4: "fill_missing ''completed_at'' JNull t = Inr t"
    using d ca by (simp add: fill_missing_obj)
  show ?thesis
    unfolding load_one_def by (simp add: 1 2 3 4)
qed

lemma load_loop_complete:
  "list_all carries_all_fields ts \<Longrightarrow> load_loop now n ts = Inr ts"
  by (induction ts) (simp_all add: load_one_complete)

text \<open>
  Claim C6. For a collection whose records all carry \<open>id\<close>, \<open>task\<close>, \<open>done\<close>, \<open>priority\<close>,
  \<open>created_at\<close> and \<open>completed_at\<close>, a successful save followed by a load returns the
  collection as it was, record for record and field for field.
\<close>

theorem save_then_load:
  assumes "list_all carries_all_fields ts"
  shows "load_tasks now (save_tasks WriteOk ts f) = Inr (JArr ts)"
  using load_loop_complete [OF assms] by (simp add: load_tasks_def save_tasks_def)

text \<open>An instance: the three records of the pantry.\<close>

theorem save_then_load_witness:
  "list_all carries_all_fields [milk, bread, tea]
   \<and> load_tasks noon (save_tasks WriteOk [milk, bread, tea] NoFile) = Inr (JArr [milk, bread, tea])"
proof -
  have a: "list_all carries_all_fields [milk, bread, tea]"
    by (simp add: example_defs carries_all_fields_def field_defs)
  have b: "load_tasks noon (save_tasks WriteOk [milk, bread, tea] NoFile) =
      Inr (JArr [milk, bread, tea])"
    by (rule save_then_load [OF a])
  show ?thesis by (intro conjI a b)
qed

section \<open>The order of sorted lists\<close>

lemma keyed_total:
  "(\<And>t. t \<in> set ts \<Longrightarrow> f t = Inr (g t)) \<Longrightarrow> keyed f ts = Inr (map (\<lambda>t. (g t, t)) ts)"
  by (induction ts) simp_all

lemma insort_key_pairs:
  "insort_key h (g x, x) (map (\<lambda>t. (g t, t)) ys) =
     map (\<lambda>t. (g t, t)) (insort_key (\<lambda>t. h (g t, t)) x ys)"
  by (induction ys) simp_all

lemma sort_key_pairs:
  "sort_key h (map (\<lambda>t. (g t, t)) xs) = map (\<lambda>t. (g t, t)) (sort_key (\<lambda>t. h (g t, t)) xs)"
  by (induction xs) (simp_all add: insort_key_pairs)

lemma map_snd_sort_key_pairs:
  "map snd (sort_key h (map (\<lambda>t. (g t, t)) xs)) = sort_key (\<lambda>t. h (g t, t)) xs"
  by (simp add: sort_key_pairs comp_def)

lemma sort_key_short: "length xs \<le> 1 \<Longrightarrow> sort_key h xs = xs"
  by (cases xs) (simp_all add: Suc_le_eq)

lemma py_sorted_num:
  assumes "\<And>t. t \<in> set ts \<Longrightarrow> f t = Inr (g t)"
    and "\<And>t. t \<in> set ts \<Longrightarrow> is_number (fst (g t)) \<and> is_number (snd (g t))"
  shows "py_sorted f ts = Inr (sort_key (\<lambda>t. (num_of (fst (g t)), num_of (snd (g t)))) ts)"
proof -
  have all: "list_all (\<lambda>((d, k), x). is_number d \<and> is_number k) (map (\<lambda>t. (g t, t)) ts)"
    using assms(2) by (simp add: list_all_iff case_prod_unfold)
  have "map snd (sort_key (\<lambda>((d, k), x). (num_of d, num_of k)) (map (\<lambda>t. (g t, t)) ts))
      = sort_key (\<lambda>t. (num_of (fst (g t)), num_of (snd (g t)))) ts"
    by (simp add: map_snd_sort_key_pairs case_prod_unfold)
  with all keyed_total [of ts f g, OF assms(1)] show ?thesis
    by (simp add: py_sorted_def sort_key_short)
qed

lemma py_sorted_str:
  assumes "\<And>t. t \<in> set ts \<Longrightarrow> f t = Inr (g t)"
    and "\<And>t. t \<in> set ts \<Longrightarrow> is_number (fst (g t)) \<and> is_str (snd (g t))"
  shows "py_sorted f ts = Inr (sort_key (\<lambda>t. (num_of (fst (g t)), str_of (snd (g t)))) ts)"
proof (cases "length ts \<le> 1")
  case True
  with keyed_total [of ts f g, OF assms(1)] show ?thesis
    by (simp add: py_sorted_def sort_key_short)
next
  case False
  then obtain t where t: "t \<in> set ts" by (cases ts) auto
  from assms(2) [OF t] have "\<not> is_number (snd (g t))" by (cases "snd (g t)") simp_all
  with t have no: "\<not> list_all (\<lambda>((d, k), x). is_number d \<and> is_number k) (map (\<lambda>t. (g t, t)) ts)"
    by (auto simp: list_all_iff case_prod_unfold)
  have all: "list_all (\<lambda>((d, k), x). is_number d \<and> is_str k) (map (\<lambda>t. (g t, t)) ts)"
    using assms(2) by (simp add: list_all_iff case_prod_unfold)
  have "map snd (sort_key (\<lambda>((d, k), x). (num_of d, str_of k)) (map (\<lambda>t. (g t, t)) ts))
      = sort_key (\<lambda>t. (num_of (fst (g t)), str_of (snd (g t)))) ts"
    by (simp add: map_snd_sort_key_pairs case_prod_unfold)
  with all no False keyed_total [of ts f g, OF assms(1)] show ?thesis
    by (simp add: py_sorted_def)
qed

lemma well_typed_fields:
  assumes "well_typed t"
  obtains b p c x where "getitem t ''done'' = Inr (JBool b)" "getitem t ''priority'' = Inr (JStr p)"
    "getitem t ''created_at'' = Inr (JStr c)" "getitem t ''task'' = Inr (JStr x)"
proof -
  from assms obtain d p c x where f: "getitem t ''done'' = Inr d" "is_bool d"
    "getitem t ''priority'' = Inr p" "is_str p" "getitem t ''created_at'' = Inr c" "is_str c"
    "getitem t ''task'' = Inr x" "is_str x"
    unfolding well_typed_def has_field_iff by blast
  from f(2) obtain b where "d = JBool b" by (cases d) simp_all
  moreover from f(4) obtain p' where "p = JStr p'" by (cases p) simp_all
  moreover from f(6) obtain c' where "c = JStr c'" by (cases c) simp_all
  moreover from f(8) obtain x' where "x = JStr x'" by (cases x) simp_all
  ultimately show ?thesis using f(1,3,5,7) that by blast
qed

lemma priority_key_typed:
  assumes "well_typed t"
  shows "priority_key t = Inr (field ''done'' t, JNum (of_int (spec_rank (field ''priority'' t))))"
proof -
  from assms obtain b p where "getitem t ''done'' = Inr (JBool b)"
    "getitem t ''priority'' = Inr (JStr p)"
    by (rule well_typed_fields)
  then show ?thesis by (simp add: priority_key_def field_def spec_rank_def)
qed

lemma created_key_typed:
  assumes "well_typed t"
  shows "created_key t = Inr (field ''done'' t, field ''created_at'' t)"
proof -
  from assms obtain b c where "getitem t ''done'' = Inr (JBool b)"
    "getitem t ''created_at'' = Inr (JStr c)"
    by (rule well_typed_fields)
  then show ?thesis by (simp add: created_key_def field_def)
qed

lemma alphabetical_key_typed:
  assumes "well_typed t"
  shows "alphabetical_key t = Inr (field ''done'' t, JStr (py_lower (str_of (field ''task'' t))))"
proof -
  from assms obtain b x where "getitem t ''done'' = Inr (JBool b)"
    "getitem t ''task'' = Inr (JStr x)"
    by (rule well_typed_fields)
  then show ?thesis by (simp add: alphabetical_key_def field_def)
qed

lemma well_typed_done: "well_typed t \<Longrightarrow> is_number (field ''done'' t)"
  by (erule well_typed_fields) (simp add: field_def)

lemma well_typed_created: "well_typed t \<Longrightarrow> is_str (field ''created_at'' t)"
  by (erule well_typed_fields) (simp add: field_def)

lemma done_key: "well_typed t \<Longrightarrow> num_of (field ''done'' t) = of_bool (is_done t)"
  by (erule well_typed_fields) (simp add: field_def is_done_def)

lemma sort_key_cong_set:
  "(\<And>x. x \<in> set xs \<Longrightarrow> f x = g x) \<Longrightarrow> sort_key f xs = sort_key g xs"
proof (induction xs)
  case Nil
  show ?case by simp
next
  case (Cons a xs)
  then have ih: "sort_key f xs = sort_key g xs" by simp
  have "insort_key f a ys = insort_key g a ys" if "set ys \<subseteq> set (a # xs)" for ys
    using that Cons.prems by (induction ys) simp_all
  from this [of "sort_key g xs"] ih show ?case by auto
qed

lemma sort_tasks_priority:
  assumes "list_all well_typed ts"
  shows "sort_tasks ts ''Priority'' = Inr (sort_key typed_key_priority ts)"
proof -
  have wt: "well_typed t" if "t \<in> set ts" for t
    using assms that by (simp add: list_all_iff)
  have "py_sorted priority_key ts =
      Inr (sort_key (\<lambda>t. (num_of (fst (field ''done'' t, JNum (of_int (spec_rank (field ''priority'' t))))),
                           num_of (snd (field ''done'' t, JNum (of_int (spec_rank (field ''priority'' t))))))) ts)"
    by (rule py_sorted_num) (simp_all add: wt priority_key_typed well_typed_done)
  moreover have "sort_key (\<lambda>t. (num_of (fst (field ''done'' t, JNum (of_int (spec_rank (field ''priority'' t))))),
                           num_of (snd (field ''done'' t, JNum (of_int (spec_rank (field ''priority'' t))))))) ts
      = sort_key typed_key_priority ts"
    by (rule sort_key_cong_set) (simp add: typed_key_priority_def done_key wt)
  ultimately show ?thesis by (simp add: sort_tasks_def)
qed

lemma sort_tasks_created:
  assumes "list_all well_typed ts"
  shows "sort_tasks ts ''Created Date'' = Inr (sort_key typed_key_created ts)"
proof -
  have wt: "well_typed t" if "t \<in> set ts" for t
    using assms that by (simp add: list_all_iff)
  have "py_sorted created_key ts =
      Inr (sort_key (\<lambda>t. (num_of (fst (field ''done'' t, field ''created_at'' t)),
                           str_of (snd (field ''done'' t, field ''created_at'' t)))) ts)"
    by (rule py_sorted_str) (simp_all add: wt created_key_typed well_typed_done well_typed_created)
  moreover have "sort_key (\<lambda>t. (num_of (fst (field ''done'' t, field ''created_at'' t)),
                           str_of (snd (field ''done'' t, field ''created_at'' t)))) ts
      = sort_key typed_key_created ts"
    by (rule sort_key_cong_set) (simp add: typed_key_created_def done_key wt)
  ultimately show ?thesis by (simp add: sort_tasks_def)
qed

lemma sort_tasks_alphabetical:
  assumes "list_all well_typed ts"
  shows "sort_tasks ts ''Alphabetical'' = Inr (sort_key typed_key_alphabetical ts)"
proof -
  have wt: "well_typed t" if "t \<in> set ts" for t
    using assms that by (simp add: list_all_iff)
  have "py_sorted alphabetical_key ts =
      Inr (sort_key (\<lambda>t. (num_of (fst (field ''done'' t, JStr (py_lower (str_of (field ''task'' t))))),
                           str_of (snd (field ''done'' t, JStr (py_lower (str_of (field ''task'' t))))))) ts)"
    by (rule py_sorted_str) (simp_all add: wt alphabetical_key_typed well_typed_done)
  moreover have "sort_key (\<lambda>t. (num_of (fst (field ''done'' t, JStr (py_lower (str_of (field ''task'' t))))),
                           str_of (snd (field ''done'' t, JStr (py_lower (str_of (field ''task'' t))))))) ts
      = sort_key typed_key_alphabetical ts"
    by (rule sort_key_cong_set) (simp add: typed_key_alphabetical_def done_key wt)
  ultimately show ?thesis by (simp add: sort_tasks_def)
qed

lemma spec_before_priority:
  "spec_before ''Priority'' a b \<longleftrightarrow> typed_key_priority a < typed_key_priority b"
  by (auto simp: spec_before_def secondary_before_def typed_key_priority_def less_prod_def')

lemma spec_before_created:
  "spec_before ''Created Date'' a b \<longleftrightarrow> typed_key_created a < typed_key_created b"
  by (auto simp: spec_before_def secondary_before_def typed_key_created_def less_prod_def')

lemma spec_before_alphabetical:
  "spec_before ''Alphabetical'' a b \<longleftrightarrow> typed_key_alphabetical a < typed_key_alphabetical b"
  by (auto simp: spec_before_def secondary_before_def typed_key_alphabetical_def less_prod_def')

lemma done_last:
  assumes "sorted_wrt (\<lambda>a b. \<not> spec_before sort_by b a) rs"
  shows "filter (\<lambda>t. \<not> is_done t) rs @ filter is_done rs = rs"
  using assms
proof (induction rs)
  case Nil
  show ?case by simp
next
  case (Cons a rs)
  then have ih: "filter (\<lambda>t. \<not> is_done t) rs @ filter is_done rs = rs" by simp
  show ?case
  proof (cases "is_done a")
    case False
    with ih show ?thesis by simp
  next
    case True
    from Cons.prems have "\<forall>b\<in>set rs. \<not> spec_before sort_by b a" by simp
    with True have "\<forall>b\<in>set rs. is_done b" by (auto simp: spec_before_def)
    then have "filter (\<lambda>t. \<not> is_done t) rs = []" "filter is_done rs = rs"
      by (simp_all add: filter_empty_conv)
    with True show ?thesis by simp
  qed
qed

lemma stable_sort_spec:
  fixes K :: "json \<Rightarrow> 'k::linorder"
  assumes ord: "\<And>a b. spec_before sort_by a b \<longleftrightarrow> K a < K b"
  shows "mset (sort_key K ts) = mset ts
    \<and> sorted_wrt (\<lambda>a b. \<not> spec_before sort_by b a) (sort_key K ts)
    \<and> filter (\<lambda>t. \<not> is_done t) (sort_key K ts) @ filter is_done (sort_key K ts) = sort_key K ts
    \<and> (\<forall>t. filter (tied sort_by t) (sort_key K ts) = filter (tied sort_by t) ts)"
proof -
  have "sorted (map K (sort_key K ts))" by (rule sorted_sort_key)
  then have "sorted_wrt (\<lambda>a b. K a \<le> K b) (sort_key K ts)" by (simp add: sorted_map)
  then have s: "sorted_wrt (\<lambda>a b. \<not> spec_before sort_by b a) (sort_key K ts)"
    by (rule sorted_wrt_mono_rel [rotated]) (simp add: ord not_less)
  have "tied sort_by t = (\<lambda>y. K y = K t)" for t
    by (intro ext) (auto simp: tied_def ord)
  then have "filter (tied sort_by t) (sort_key K ts) = filter (tied sort_by t) ts" for t
    by (simp add: sort_key_stable)
  with s done_last [OF s] show ?thesis by simp
qed

text \<open>
  Claim C2. For a list of records whose \<open>done\<close> is a boolean and whose priority, creation
  time and text are strings, and for each of the sort keys Priority, Created Date and
  Alphabetical, \<open>sort_tasks\<close> returns a permutation of the list in which no record comes
  after one that the specified order puts after it: every incomplete record comes before
  every completed one, and among records of equal completion High comes before Medium before
  Low, an earlier creation time before a later one, a text before another by their lowercase
  forms. The sort is stable: records that the order does not separate keep their relative
  order.
\<close>

theorem sort_tasks_stable:
  assumes "list_all well_typed ts"
    and "sort_by = ''Priority'' \<or> sort_by = ''Created Date'' \<or> sort_by = ''Alphabetical''"
  shows "\<exists>rs. sort_tasks ts sort_by = Inr rs
    \<and> mset rs = mset ts
    \<and> sorted_wrt (\<lambda>a b. \<not> spec_before sort_by b a) rs
    \<and> filter (\<lambda>t. \<not> is_done t) rs @ filter is_done rs = rs
    \<and> (\<forall>t. filter (tied sort_by t) rs = filter (tied sort_by t) ts)"
proof -
  from assms(2) consider "sort_by = ''Priority''" | "sort_by = ''Created Date''"
    | "sort_by = ''Alphabetical''" by blast
  then show ?thesis
  proof cases
    case 1
    from stable_sort_spec [of "''Priority''" typed_key_priority ts, OF spec_before_priority]
      sort_tasks_priority [OF assms(1)] 1
    show ?thesis by simp
  next
    case 2
    from stable_sort_spec [of "''Created Date''" typed_key_created ts, OF spec_before_created]
      sort_tasks_created [OF assms(1)] 2
    show ?thesis by simp
  next
    case 3
    from stable_sort_spec [of "''Alphabetical''" typed_key_alphabetical ts,
        OF spec_before_alphabetical]
      sort_tasks_alphabetical [OF assms(1)] 3
    show ?thesis by simp
  qed
qed

text \<open>An instance: four chores under each of the three sort keys.\<close>

theorem sort_tasks_stable_witness:
  "list_all well_typed chores
   \<and> (\<exists>rs. sort_tasks chores ''Alphabetical'' = Inr rs
        \<and> mset rs = mset chores
        \<and> sorted_wrt (\<lambda>a b. \<not> spec_before ''Alphabetical'' b a) rs
        \<and> filter (\<lambda>t. \<not> is_done t) rs @ filter is_done rs = rs
        \<and> (\<forall>t. filter (tied ''Alphabetical'' t) rs = filter (tied ''Alphabetical'' t) chores))
   \<and> sort_tasks chores ''Alphabetical'' = Inr [milk, milk_again, tea, bread]
   \<and> sort_tasks chores ''Priority'' = Inr [milk, tea, milk_again, bread]
   \<and> sort_tasks chores ''Created Date'' = Inr [milk, tea, milk_again, bread]"
proof -
  have a: "list_all well_typed chores"
    by (simp add: chores_def example_defs well_typed_def has_field_def)
  have b: "\<exists>rs. sort_tasks chores ''Alphabetical'' = Inr rs
        \<and> mset rs = mset chores
        \<and> sorted_wrt (\<lambda>a b. \<not> spec_before ''Alphabetical'' b a) rs
        \<and> filter (\<lambda>t. \<not> is_done t) rs @ filter is_done rs = rs
        \<and> (\<forall>t. filter (tied ''Alphabetical'' t) rs = filter (tied ''Alphabetical'' t) chores)"
    by (rule sort_tasks_stable [OF a]) simp
  have c: "sort_tasks chores ''Alphabetical'' = Inr [milk, milk_again, tea, bread]"
    by (simp add: chores_def example_defs sort_defs)
  have d: "sort_tasks chores ''Priority'' = Inr [milk, tea, milk_again, bread]"
    by (simp add: chores_def example_defs sort_defs)
  have e: "sort_tasks chores ''Created Date'' = Inr [milk, tea, milk_again, bread]"
    by (simp add: chores_def example_defs sort_defs)
  show ?thesis by (intro conjI a b c d e)
qed

end
